theory Spec2Isabelle
  imports Main "HOL-Library.Sublist" "HOL-Library.Word"
begin

section \<open>Go strings as byte lists\<close>

text \<open>
  A Go string is a sequence of bytes; it is modelled as a \<open>string\<close> (a list of
  8-bit characters). The functions of package \<open>strings\<close> that \<open>dump.go\<close> calls are
  written out on byte lists, under the names they have in Go. A Go \<open>error\<close> value
  is its message, except for the sentinel \<open>io.EOF\<close>.
\<close>

datatype error = EOF | Err string

definition HasPrefix :: "string \<Rightarrow> string \<Rightarrow> bool" where
  "HasPrefix s p = (length p \<le> length s \<and> take (length p) s = p)"

definition HasSuffix :: "string \<Rightarrow> string \<Rightarrow> bool" where
  "HasSuffix s p = (length p \<le> length s \<and> drop (length s - length p) s = p)"

definition TrimPrefix :: "string \<Rightarrow> string \<Rightarrow> string" where
  "TrimPrefix s p = (if HasPrefix s p then drop (length p) s else s)"

definition TrimSuffix :: "string \<Rightarrow> string \<Rightarrow> string" where
  "TrimSuffix s p = (if HasSuffix s p then take (length s - length p) s else s)"

text \<open>\<open>strings.Index\<close>: the position of the first occurrence, or \<open>-1\<close>.\<close>

fun Index_from :: "nat \<Rightarrow> string \<Rightarrow> string \<Rightarrow> int" where
  "Index_from i [] sub = (if sub = [] then int i else - 1)"
| "Index_from i (c # cs) sub =
     (if HasPrefix (c # cs) sub then int i else Index_from (Suc i) cs sub)"

definition Index :: "string \<Rightarrow> string \<Rightarrow> int" where
  "Index s sub = Index_from 0 s sub"

text \<open>
  \<open>strings.Replace(s, old, new, -1)\<close>: every non-overlapping occurrence of \<open>old\<close>,
  from the left. Every call in \<open>dump.go\<close> passes a non-empty constant for \<open>old\<close>,
  and only that case is defined.
\<close>

fun Replace_all :: "string \<Rightarrow> string \<Rightarrow> string \<Rightarrow> string" where
  "Replace_all [] (c # cs) new = []"
| "Replace_all (x # xs) (c # cs) new =
     (if HasPrefix (x # xs) (c # cs) then new @ Replace_all (drop (length cs) xs) (c # cs) new
      else x # Replace_all xs (c # cs) new)"

text \<open>
  \<open>strings.TrimLeft(s, cutset)\<close> for a cutset of ASCII bytes, and
  \<open>strings.TrimSpace\<close>. White space is what \<open>unicode.IsSpace\<close> accepts: the six
  ASCII characters and the UTF-8 encodings of U+0085, U+00A0, U+1680,
  U+2000 to U+200A, U+2028, U+2029, U+202F, U+205F and U+3000.
\<close>

definition TrimLeft :: "string \<Rightarrow> string \<Rightarrow> string" where
  "TrimLeft s cutset = dropWhile (\<lambda>c. c \<in> set cutset) s"

definition space_runes :: "string list" where
  "space_runes =
     [[CHR 0x09], [CHR 0x0A], [CHR 0x0B], [CHR 0x0C], [CHR 0x0D], [CHR 0x20],
      [CHR 0xC2, CHR 0x85], [CHR 0xC2, CHR 0xA0], [CHR 0xE1, CHR 0x9A, CHR 0x80],
      [CHR 0xE2, CHR 0x80, CHR 0x80], [CHR 0xE2, CHR 0x80, CHR 0x81],
      [CHR 0xE2, CHR 0x80, CHR 0x82], [CHR 0xE2, CHR 0x80, CHR 0x83],
      [CHR 0xE2, CHR 0x80, CHR 0x84], [CHR 0xE2, CHR 0x80, CHR 0x85],
      [CHR 0xE2, CHR 0x80, CHR 0x86], [CHR 0xE2, CHR 0x80, CHR 0x87],
      [CHR 0xE2, CHR 0x80, CHR 0x88], [CHR 0xE2, CHR 0x80, CHR 0x89],
      [CHR 0xE2, CHR 0x80, CHR 0x8A], [CHR 0xE2, CHR 0x80, CHR 0xA8],
      [CHR 0xE2, CHR 0x80, CHR 0xA9], [CHR 0xE2, CHR 0x80, CHR 0xAF],
      [CHR 0xE2, CHR 0x81, CHR 0x9F], [CHR 0xE3, CHR 0x80, CHR 0x80]]"

text \<open>The width of the rune of \<open>runes\<close> that \<open>s\<close> starts with, or 0.\<close>

definition rune_width :: "string list \<Rightarrow> string \<Rightarrow> nat" where
  "rune_width runes s = (case filter (HasPrefix s) runes of [] \<Rightarrow> 0 | r # _ \<Rightarrow> length r)"

fun strip_runes :: "string list \<Rightarrow> string \<Rightarrow> string" where
  "strip_runes runes [] = []"
| "strip_runes runes (c # cs) =
     (if rune_width runes (c # cs) = 0 then c # cs
      else strip_runes runes (drop (rune_width runes (c # cs) - 1) cs))"

definition TrimSpace :: "string \<Rightarrow> string" where
  "TrimSpace s = rev (strip_runes (map rev space_runes) (rev (strip_runes space_runes s)))"

text \<open>\<open>strconv\<close>-style decimal text of an integer, as the verb \<open>%d\<close> prints it.\<close>

fun digits :: "nat \<Rightarrow> string" where
  "digits n = (if n < 10 then [''0123456789'' ! n]
               else digits (n div 10) @ [''0123456789'' ! (n mod 10)])"

definition FormatInt :: "int \<Rightarrow> string" where
  "FormatInt i = (if i < 0 then CHR ''-'' # digits (nat (- i)) else digits (nat i))"

text \<open>Upper-case hexadecimal of a byte string, as the verb \<open>%X\<close> prints it.\<close>

definition hex_byte :: "char \<Rightarrow> string" where
  "hex_byte c = [''0123456789ABCDEF'' ! (of_char c div 16), ''0123456789ABCDEF'' ! (of_char c mod 16)]"

definition hex_upper :: "string \<Rightarrow> string" where
  "hex_upper s = concat (map hex_byte s)"

section \<open>Driver values and the verbs of package fmt\<close>

text \<open>
  A scanned column is an \<open>interface{}\<close> holding one of the dynamic types a
  \<open>database/sql\<close> driver may hand over: nothing (SQL NULL), \<open>[]byte\<close>, \<open>string\<close>,
  \<open>int64\<close>, \<open>uint64\<close>, \<open>float64\<close> (its 64 bits), \<open>bool\<close> or \<open>time.Time\<close> (an
  instant and the name of its location).
\<close>

datatype gotime = Time int string

datatype "value" =
    VNil
  | VBytes string
  | VString string
  | VInt64 "64 word"
  | VUint64 "64 word"
  | VFloat64 "64 word"
  | VBool bool
  | VTime gotime

text \<open>
  What \<open>dump.go\<close> takes from the standard library and does not decide itself is a
  parameter of the model: \<open>time.Time.Format\<close>, and the text package \<open>fmt\<close> prints for
  a verb and an operand in the cases that are not written out below (floating
  point, \<open>%!verb(type=value)\<close> for a verb that does not fit the operand, a
  \<open>time.Time\<close> operand).
\<close>

record gofmt =
  Format :: "gotime \<Rightarrow> string \<Rightarrow> string"
  verb_other :: "char \<Rightarrow> value \<Rightarrow> string"

text \<open>
  \<open>Sprintf lib c v\<close> is the text of \<open>fmt.Sprintf("%c", v)\<close>: \<open>%d\<close> of an integer is
  its decimal text, \<open>%s\<close> of a byte slice or string is its bytes, \<open>%X\<close> of a byte
  slice or string is their upper-case hexadecimal.
\<close>

fun Sprintf :: "gofmt \<Rightarrow> char \<Rightarrow> value \<Rightarrow> string" where
  "Sprintf lib c (VInt64 w) = (if c = CHR ''d'' then FormatInt (sint w) else verb_other lib c (VInt64 w))"
| "Sprintf lib c (VUint64 w) = (if c = CHR ''d'' then FormatInt (uint w) else verb_other lib c (VUint64 w))"
| "Sprintf lib c (VBytes bs) =
     (if c = CHR ''s'' then bs else if c = CHR ''X'' then hex_upper bs else verb_other lib c (VBytes bs))"
| "Sprintf lib c (VString s) =
     (if c = CHR ''s'' then s else if c = CHR ''X'' then hex_upper s else verb_other lib c (VString s))"
| "Sprintf lib c v = verb_other lib c v"

section \<open>The literal encoder: the switch of writeTableData\<close>

record ColumnType =
  Name :: string
  DatabaseTypeName :: string

text \<open>
  What the body of the column loop does with one column: it appends a literal to
  \<open>dml\<close>, or leaves \<open>writeTableData\<close> by a \<open>return\<close> (with the error returned,
  \<open>None\<close> for \<open>nil\<close>), or panics.
\<close>

datatype outcome = Lit string | Return "error option" | Panic

text \<open>
  Lines 394 to 476. \<open>err\<close> is the variable \<open>err\<close> of \<open>writeTableData\<close> as it stands
  when the column is encoded; the branches for DATE, DATETIME, TIMESTAMP, TIME
  and YEAR return it.
\<close>

definition writeTableData_column ::
  "gofmt \<Rightarrow> bool \<Rightarrow> error option \<Rightarrow> ColumnType \<Rightarrow> value \<Rightarrow> outcome" where
  "writeTableData_column lib withoutPrimaryID err ct col =
     (if col = VNil then Lit ''NULL''
      else
        let Type0 = DatabaseTypeName ct;
            columnName = Name ct;
            Type1 = Replace_all Type0 ''UNSIGNED'' [];
            Type = Replace_all Type1 '' '' []
        in
        if Type \<in> set [''TINYINT'', ''SMALLINT'', ''MEDIUMINT'', ''INT'', ''INTEGER'', ''BIGINT''] then
          (case col of
             VBytes bs \<Rightarrow>
               if withoutPrimaryID \<and> columnName = ''id'' then Lit ''0'' else Lit bs
           | _ \<Rightarrow> Lit (Sprintf lib CHR ''d'' col))
        else if Type \<in> set [''FLOAT'', ''DOUBLE''] then
          (case col of
             VBytes bs \<Rightarrow> Lit bs
           | _ \<Rightarrow> Lit (Sprintf lib CHR ''f'' col))
        else if Type \<in> set [''DECIMAL'', ''DEC''] then
          Lit (Sprintf lib CHR ''s'' col)
        else if Type = ''DATE'' then
          (case col of
             VTime t \<Rightarrow> Lit ([CHR 0x27] @ Format lib t ''2006-01-02'' @ [CHR 0x27])
           | _ \<Rightarrow> Return err)
        else if Type = ''DATETIME'' then
          (case col of
             VTime t \<Rightarrow> Lit ([CHR 0x27] @ Format lib t ''2006-01-02 15:04:05'' @ [CHR 0x27])
           | _ \<Rightarrow> Return err)
        else if Type = ''TIMESTAMP'' then
          (case col of
             VTime t \<Rightarrow> Lit ([CHR 0x27] @ Format lib t ''2006-01-02 15:04:05'' @ [CHR 0x27])
           | _ \<Rightarrow> Return err)
        else if Type = ''TIME'' then
          (case col of
             VBytes t \<Rightarrow> Lit ([CHR 0x27] @ t @ [CHR 0x27])
           | _ \<Rightarrow> Return err)
        else if Type = ''YEAR'' then
          (case col of
             VBytes t \<Rightarrow> Lit t
           | _ \<Rightarrow> Return err)
        else if Type \<in> set [''CHAR'', ''VARCHAR'', ''TINYTEXT'', ''TEXT'', ''MEDIUMTEXT'', ''LONGTEXT''] then
          Lit ([CHR 0x27] @ Replace_all (Sprintf lib CHR ''s'' col) [CHR 0x27] [CHR 0x27, CHR 0x27]
               @ [CHR 0x27])
        else if Type \<in> set [''BIT'', ''BINARY'', ''VARBINARY'', ''TINYBLOB'', ''BLOB'', ''MEDIUMBLOB'',
                            ''LONGBLOB''] then
          Lit (''0x'' @ Sprintf lib CHR ''X'' col)
        else if Type \<in> set [''ENUM'', ''SET''] then
          Lit ([CHR 0x27] @ Sprintf lib CHR ''s'' col @ [CHR 0x27])
        else if Type \<in> set [''BOOL'', ''BOOLEAN''] then
          (case col of
             VBool b \<Rightarrow> if b then Lit ''true'' else Lit ''false''
           | _ \<Rightarrow> Panic)
        else if Type = ''JSON'' then
          Lit ([CHR 0x27] @ Sprintf lib CHR ''s'' col @ [CHR 0x27])
        else Return (Some (Err (''unsupported type: '' @ Type))))"

text \<open>
  The loop over the columns of one row (lines 393 to 480). \<open>n\<close> is \<open>len(row)\<close>,
  \<open>i\<close> the index of the column at the head of the list. The test for \<open>nil\<close>
  comes before \<open>columnTypes[i]\<close> is read, and \<open>columnTypes[i]\<close> panics when \<open>i\<close>
  is out of range.
\<close>

fun writeTableData_row ::
  "gofmt \<Rightarrow> bool \<Rightarrow> error option \<Rightarrow> ColumnType list \<Rightarrow> nat \<Rightarrow> nat \<Rightarrow> value list \<Rightarrow> string \<Rightarrow> outcome"
where
  "writeTableData_row lib withoutPrimaryID err columnTypes n i [] dml = Lit dml"
| "writeTableData_row lib withoutPrimaryID err columnTypes n i (col # cols) dml =
     (case (if col = VNil then Lit ''NULL''
            else if i < length columnTypes
              then writeTableData_column lib withoutPrimaryID err (columnTypes ! i) col
              else Panic) of
        Lit l \<Rightarrow>
          writeTableData_row lib withoutPrimaryID err columnTypes n (Suc i) cols
            (if int i < int n - 1 then dml @ l @ '','' else dml @ l)
      | Return e \<Rightarrow> Return e
      | Panic \<Rightarrow> Panic)"

section \<open>writeTableData and the streaming row writer\<close>

text \<open>
  The database is a parameter: \<open>db.Query\<close> maps the text of a query to an error or
  to its rows, which answer \<open>Columns\<close>, \<open>ColumnTypes\<close> and, for every \<open>Next\<close> that
  is true, one \<open>Scan\<close> (an error or the values of the row, one per column).
\<close>

record Rows =
  Columns :: "error + string list"
  ColumnTypes :: "error + ColumnType list"
  scans :: "(error + value list) list"

type_synonym DB = "string \<Rightarrow> error + Rows"

text \<open>
  What the goroutine running \<open>writeTableData\<close> does to the outside, in program
  order: a write to the buffered writer, the \<open>go\<close> statement that starts
  \<open>writeViaBuf\<close>, a send on \<open>writeCh\<close>, the send on \<open>done\<close>. The function ends by
  returning an error (or \<open>nil\<close>) or by a panic.
\<close>

datatype action = BufWrite string | Go | Send string | Done

datatype result = Returned "error option" | Panicked

text \<open>
  The loop \<open>for lineRows.Next()\<close> (lines 379 to 484) and what follows it. At line
  391 the variable \<open>err\<close> holds the \<open>nil\<close> of the \<open>Scan\<close> that has just succeeded.
\<close>

fun writeTableData_rows ::
  "gofmt \<Rightarrow> bool \<Rightarrow> string \<Rightarrow> ColumnType list \<Rightarrow> (error + value list) list \<Rightarrow> action list \<times> result"
where
  "writeTableData_rows lib withoutPrimaryID table columnTypes [] =
     ([BufWrite [CHR 0x0A, CHR 0x0A], Done], Returned None)"
| "writeTableData_rows lib withoutPrimaryID table columnTypes (scan # later) =
     (case scan of
        Inl e \<Rightarrow> ([], Returned (Some e))
      | Inr row \<Rightarrow>
          (case writeTableData_row lib withoutPrimaryID None columnTypes (length row) 0 row
                  (''INSERT INTO `'' @ table @ ''` VALUES ('') of
             Lit dml \<Rightarrow>
               (case writeTableData_rows lib withoutPrimaryID table columnTypes later of
                  (acts, r) \<Rightarrow> (Send (dml @ '');'' @ [CHR 0x0A]) # acts, r))
           | Return e \<Rightarrow> ([], Returned e)
           | Panic \<Rightarrow> ([], Panicked)))"

definition writeTableData ::
  "gofmt \<Rightarrow> DB \<Rightarrow> string \<Rightarrow> string \<Rightarrow> bool \<Rightarrow> action list \<times> result" where
  "writeTableData lib db table where' withoutPrimaryID =
     (let header =
            [BufWrite (''-- ----------------------------'' @ [CHR 0x0A]),
             BufWrite (''-- Records of '' @ table @ [CHR 0x0A]),
             BufWrite (''-- ----------------------------'' @ [CHR 0x0A])];
          dml0 = ''SELECT * FROM `'' @ table @ ''`'';
          dml = (if TrimSpace where' \<noteq> [] then dml0 @ '' where '' @ where' else dml0)
      in case db dml of
           Inl e \<Rightarrow> (header, Returned (Some e))
         | Inr lineRows \<Rightarrow>
             (case Columns lineRows of
                Inl e \<Rightarrow> (header, Returned (Some e))
              | Inr columns \<Rightarrow>
                  (case ColumnTypes lineRows of
                     Inl e \<Rightarrow> (header, Returned (Some e))
                   | Inr columnTypes \<Rightarrow>
                       (case writeTableData_rows lib withoutPrimaryID table columnTypes
                               (scans lineRows) of
                          (acts, r) \<Rightarrow> (header @ [Go] @ acts, r)))))"

subsection \<open>SafeWriter\<close>

text \<open>
  A \<open>bufio.Writer\<close> whose destination never fails: the size of its buffer, the
  bytes buffered, the bytes that have reached the destination, and whether the
  destination is an \<open>io.StringWriter\<close> (an \<open>*os.File\<close> such as \<open>os.Stdout\<close> is).
  \<open>bufio_WriteString\<close> is the library's loop. While the string does not fit:
  when the buffer is empty and the destination is an \<open>io.StringWriter\<close>, the
  whole string is written through to the destination; otherwise the buffer is
  filled and flushed. What is left at the end is copied into the buffer.
  (\<open>bufio.NewWriterSize\<close> never makes a buffer of size 0.)
\<close>

record Writer =
  size_w :: nat
  buf :: string
  dest :: string
  dest_StringWriter :: bool

definition Available :: "Writer \<Rightarrow> nat" where
  "Available w = size_w w - length (buf w)"

definition Flush :: "Writer \<Rightarrow> Writer" where
  "Flush w = w\<lparr>dest := dest w @ buf w, buf := []\<rparr>"

function bufio_WriteString :: "Writer \<Rightarrow> string \<Rightarrow> Writer" where
  "bufio_WriteString w s =
     (if Available w < length s \<and> 0 < size_w w
      then
        if buf w = [] \<and> dest_StringWriter w
        then w\<lparr>dest := dest w @ s\<rparr>
        else bufio_WriteString (Flush (w\<lparr>buf := buf w @ take (Available w) s\<rparr>))
               (drop (Available w) s)
      else w\<lparr>buf := buf w @ s\<rparr>)"
  by pat_completeness auto
termination
  by (relation "measures [\<lambda>(w, s). length s, \<lambda>(w, s). length (buf w)]")
     (auto simp: Available_def Flush_def)

text \<open>\<open>SafeWriter.WriteString\<close>, lines 27 to 33.\<close>

definition WriteString :: "Writer \<Rightarrow> string \<Rightarrow> Writer" where
  "WriteString w s =
     (let l = length s;
          w1 = (if Available w < l then Flush w else w)
      in bufio_WriteString w1 s)"

subsection \<open>The two goroutines\<close>

text \<open>
  The state of one table dump: the actions the producer has still to do, the
  contents of the channel \<open>writeCh\<close> and the number of values in the channel \<open>done\<close>
  (both of capacity 1), the state of
  the goroutine \<open>writeViaBuf\<close> and the writer both goroutines use.
\<close>

datatype consumer = NotStarted | Running | Exited

record sys =
  prog :: "action list"
  writeCh :: "string list"
  doneCh :: nat
  cons :: consumer
  writer :: Writer

text \<open>
  One move of the system. \<open>Producer\<close> does the next action of \<open>writeTableData\<close>; a
  send needs room in its channel. \<open>SelectData\<close> and \<open>SelectDone\<close> are the two cases
  of the \<open>select\<close> of \<open>writeViaBuf\<close>; each needs its channel to hold a value, and
  when both do Go picks either. A move that is not enabled gives \<open>None\<close>.
\<close>

datatype move = Producer | SelectData | SelectDone

fun step :: "move \<Rightarrow> sys \<Rightarrow> sys option" where
  "step Producer s =
     (case prog s of
        [] \<Rightarrow> None
      | BufWrite t # rest \<Rightarrow> Some (s\<lparr>prog := rest, writer := WriteString (writer s) t\<rparr>)
      | Go # rest \<Rightarrow> Some (s\<lparr>prog := rest, cons := Running\<rparr>)
      | Send d # rest \<Rightarrow>
          if length (writeCh s) < 1 then Some (s\<lparr>prog := rest, writeCh := writeCh s @ [d]\<rparr>)
          else None
      | Done # rest \<Rightarrow>
          if doneCh s < 1 then Some (s\<lparr>prog := rest, doneCh := doneCh s + 1\<rparr>) else None)"
| "step SelectData s =
     (if cons s = Running then
        (case writeCh s of
           [] \<Rightarrow> None
         | d # q \<Rightarrow> Some (s\<lparr>writeCh := q, writer := WriteString (writer s) d\<rparr>))
      else None)"
| "step SelectDone s =
     (if cons s = Running \<and> 0 < doneCh s
      then Some (s\<lparr>doneCh := doneCh s - 1, cons := Exited, writer := Flush (writer s)\<rparr>)
      else None)"

fun run :: "move list \<Rightarrow> sys \<Rightarrow> sys option" where
  "run [] s = Some s"
| "run (m # ms) s = (case step m s of None \<Rightarrow> None | Some s' \<Rightarrow> run ms s')"

definition start :: "action list \<Rightarrow> Writer \<Rightarrow> sys" where
  "start acts w = \<lparr>prog = acts, writeCh = [], doneCh = 0, cons = NotStarted, writer = w\<rparr>"

section \<open>Statement replay: Source\<close>

text \<open>
  A \<open>bufio.Reader\<close> over an input that ends: the bytes not yet read, and the error
  the input gives once they are used up (\<open>io.EOF\<close> for a reader that simply
  ends). \<open>ReadString\<close> returns the bytes up to and including the first delimiter;
  when there is none it returns what is left together with that error.
\<close>

type_synonym Reader = "string \<times> error"

definition ReadString :: "Reader \<Rightarrow> char \<Rightarrow> (string \<times> error option) \<times> Reader" where
  "ReadString r delim =
     (let data = fst r;
          n = length (takeWhile (\<lambda>c. c \<noteq> delim) data)
      in if n < length data
         then ((take (Suc n) data, None), (drop (Suc n) data, snd r))
         else ((data, Some (snd r)), ([], snd r)))"

text \<open>\<open>trim\<close>, lines 727 to 731.\<close>

definition trim :: "string \<Rightarrow> string \<times> error option" where
  "trim s = (let s1 = TrimLeft s [CHR 0x0A]; s2 = TrimSpace s1 in (s2, None))"

subsection \<open>mergeInsert\<close>

text \<open>
  The loop of \<open>mergeInsert\<close> over \<open>insertSQLs[1:]\<close> (lines 707 to 721). \<open>n\<close> is \<open>len(insertSQLs)\<close>,
  \<open>i\<close> the loop index and \<open>b\<close> the contents of the string builder. The test
  \<open>i < len(insertSQLs)-1\<close> is kept as written.
\<close>

fun mergeInsert_loop :: "nat \<Rightarrow> nat \<Rightarrow> string list \<Rightarrow> string \<Rightarrow> error + string" where
  "mergeInsert_loop n i [] b = Inr b"
| "mergeInsert_loop n i (insertSQL # rest) b =
     (let b1 = (if int i < int n - 1 then b @ '','' else b);
          valuesIdx = Index insertSQL ''VALUES''
      in if valuesIdx = - 1 then Inl (Err ''invalid SQL: missing VALUES keyword'')
         else
           let dml = drop (nat valuesIdx) insertSQL;
               dml1 = TrimPrefix dml ''VALUES'';
               dml2 = TrimSuffix dml1 '';''
           in mergeInsert_loop n (Suc i) rest (b1 @ dml2))"

definition mergeInsert :: "string list \<Rightarrow> error + string" where
  "mergeInsert insertSQLs =
     (if length insertSQLs = 0 then Inl (Err ''no input provided'')
      else
        let sql1 = TrimSuffix (insertSQLs ! 0) '';''
        in case mergeInsert_loop (length insertSQLs) 0 (drop 1 insertSQLs) sql1 of
             Inl e \<Rightarrow> Inl e
           | Inr b \<Rightarrow> Inr (b @ '';''))"

subsection \<open>Options, the target database and the loops of Source\<close>

text \<open>
  The options of \<open>Source\<close>. A \<open>SourceOption\<close> is a function that updates them;
  \<open>Source\<close> applies the options it is given, in order, to the zero value.
\<close>

record sourceOption =
  dryRun :: bool
  o_mergeInsert :: int
  debug :: bool

definition WithDryRun :: "sourceOption \<Rightarrow> sourceOption" where
  "WithDryRun o' = o'\<lparr>dryRun := True\<rparr>"

definition WithMergeInsert :: "int \<Rightarrow> sourceOption \<Rightarrow> sourceOption" where
  "WithMergeInsert size' o' = o'\<lparr>o_mergeInsert := size'\<rparr>"

definition WithDebug :: "sourceOption \<Rightarrow> sourceOption" where
  "WithDebug o' = o'\<lparr>debug := True\<rparr>"

text \<open>
  The target database is a parameter: \<open>sql.DB.Exec\<close> takes the state of the
  database and a statement to an error (or \<open>nil\<close>) and the next state.
  \<open>dbWrapper.Exec\<close> (lines 557 to 566) leaves the database alone in a dry run.
  Beside the database the model keeps the list of the calls of \<open>dbWrapper.Exec\<close>
  so far, each with the error it returned.
\<close>

type_synonym 'db sql_Exec = "'db \<Rightarrow> string \<Rightarrow> error option \<times> 'db"

type_synonym 'db session = "(string \<times> error option) list \<times> 'db"

definition Exec ::
  "'db sql_Exec \<Rightarrow> sourceOption \<Rightarrow> string \<Rightarrow> 'db session \<Rightarrow> error option \<times> 'db session" where
  "Exec db_Exec o' query st =
     (case (if dryRun o' then (None, snd st) else db_Exec (snd st) query) of
        (err, db') \<Rightarrow> (err, (fst st @ [(query, err)], db')))"

text \<open>
  The inner loop of \<open>Source\<close> (lines 641 to 662); \<open>k\<close> counts the iterations that
  are left, \<open>o.mergeInsert - 1 - i\<close>. It gives the error it returns with, if any,
  the statements collected and the reader.
\<close>

fun Source_pull :: "nat \<Rightarrow> Reader \<Rightarrow> string list \<Rightarrow> error option \<times> string list \<times> Reader" where
  "Source_pull 0 r insertSQLs = (None, insertSQLs, r)"
| "Source_pull (Suc k) r insertSQLs =
     (case ReadString r CHR '';'' of
        ((line, Some e), r') \<Rightarrow>
          if e = EOF then (None, insertSQLs, r') else (Some e, insertSQLs, r')
      | ((line, None), r') \<Rightarrow>
          (case trim line of
             (dml, Some e) \<Rightarrow> (Some e, insertSQLs, r')
           | (dml, None) \<Rightarrow>
               if HasPrefix dml ''INSERT INTO'' then Source_pull k r' (insertSQLs @ [dml])
               else (None, insertSQLs, r')))"

text \<open>
  The main loop of \<open>Source\<close> (lines 619 to 676) reads until the reader gives an
  error. Every statement it reads shortens the input, which is what makes the
  loop end; the two lemmas say so for \<open>ReadString\<close> and for the inner loop.
\<close>

lemma ReadString_shorter:
  "ReadString r d = ((line, None), r') \<Longrightarrow> length (fst r') < length (fst r)"
  by (auto simp: ReadString_def Let_def split: if_splits)

lemma ReadString_le:
  "ReadString r d = (x, r') \<Longrightarrow> length (fst r') \<le> length (fst r)"
  by (auto simp: ReadString_def Let_def split: if_splits)

lemma Source_pull_le:
  "Source_pull k r acc = (e, acc', r') \<Longrightarrow> length (fst r') \<le> length (fst r)"
proof (induction k arbitrary: r acc)
  case 0
  then show ?case by simp
next
  case (Suc k)
  obtain line err r1 where rs: "ReadString r CHR '';'' = ((line, err), r1)"
    by (metis surj_pair)
  from ReadString_le [OF rs] have le: "length (fst r1) \<le> length (fst r)" .
  show ?case
  proof (cases err)
    case (Some e0)
    with Suc.prems rs le show ?thesis by (auto split: if_splits)
  next
    case None
    show ?thesis
    proof (cases "HasPrefix (fst (trim line)) ''INSERT INTO''")
      case True
      with Suc.prems rs None have "Source_pull k r1 (acc @ [fst (trim line)]) = (e, acc', r')"
        by (simp add: trim_def Let_def)
      from Suc.IH [OF this] le show ?thesis by simp
    next
      case False
      with Suc.prems rs None le show ?thesis by (simp add: trim_def Let_def)
    qed
  qed
qed

function Source_loop ::
  "'db sql_Exec \<Rightarrow> sourceOption \<Rightarrow> Reader \<Rightarrow> 'db session \<Rightarrow> error option \<times> 'db session" where
  "Source_loop db_Exec o' r st =
     (case ReadString r CHR '';'' of
        ((line, Some e), r') \<Rightarrow> if e = EOF then (None, st) else (Some e, st)
      | ((line, None), r') \<Rightarrow>
          (case trim line of
             (dml, Some e) \<Rightarrow> (Some e, st)
           | (dml, None) \<Rightarrow>
               if 1 < o_mergeInsert o' \<and> HasPrefix dml ''INSERT INTO'' then
                 (case Source_pull (nat (o_mergeInsert o' - 1)) r' [dml] of
                    (Some e, insertSQLs, r'') \<Rightarrow> (Some e, st)
                  | (None, insertSQLs, r'') \<Rightarrow>
                      (case mergeInsert insertSQLs of
                         Inl e \<Rightarrow> (Some e, st)
                       | Inr merged \<Rightarrow>
                           (case Exec db_Exec o' merged st of
                              (Some e, st') \<Rightarrow> (Some e, st')
                            | (None, st') \<Rightarrow> Source_loop db_Exec o' r'' st')))
               else
                 (case Exec db_Exec o' dml st of
                    (Some e, st') \<Rightarrow> (Some e, st')
                  | (None, st') \<Rightarrow> Source_loop db_Exec o' r' st')))"
  by pat_completeness auto
termination
  apply (relation "measure (\<lambda>(E, o', r, st). length (fst r))")
    apply simp
  subgoal
    using ReadString_shorter Source_pull_le
    by (metis (no_types, lifting) case_prod_conv in_measure order_le_less_trans)
  subgoal
    using ReadString_shorter by (metis (no_types, lifting) case_prod_conv in_measure)
  done

text \<open>
  \<open>Source\<close>, lines 569 to 691. \<open>GetDBNameFromDNS\<close> is not part of \<open>dump.go\<close> and
  \<open>sql.Open\<close> is the library's; both are parameters, and so are the three
  methods of \<open>sql.DB\<close> that \<open>Source\<close> calls: \<open>Exec\<close>, \<open>SetConnMaxLifetime\<close> (its
  argument is a \<open>time.Duration\<close>, a number of nanoseconds) and \<open>Close\<close>.
  \<open>Source_run\<close> is the part from line 601 on, once the database is open; it
  gives the error returned and the session. \<open>Source\<close> gives the error returned
  (\<open>None\<close> for \<open>nil\<close>), the calls of \<open>dbWrapper.Exec\<close> made, in order, and the
  database as the deferred \<open>db.Close()\<close> leaves it, when it was opened.
\<close>

definition Source_run ::
  "'db sql_Exec \<Rightarrow> ('db \<Rightarrow> int \<Rightarrow> 'db) \<Rightarrow> sourceOption \<Rightarrow> string \<Rightarrow> Reader \<Rightarrow> 'db \<Rightarrow>
   error option \<times> 'db session" where
  "Source_run db_Exec db_SetConnMaxLifetime o' dbName reader db =
     (case Exec db_Exec o' (''USE '' @ dbName @ '';'') ([], db) of
        (Some e, st) \<Rightarrow> (Some e, st)
      | (None, st0) \<Rightarrow>
     (case Exec db_Exec o' ''SET autocommit=0;'' (fst st0, db_SetConnMaxLifetime (snd st0) 3600) of
        (Some e, st) \<Rightarrow> (Some e, st)
      | (None, st1) \<Rightarrow>
     (case Source_loop db_Exec o' reader st1 of
        (Some e, st) \<Rightarrow> (Some e, st)
      | (None, st2) \<Rightarrow>
     (case Exec db_Exec o' ''COMMIT;'' st2 of
        (Some e, st) \<Rightarrow> (Some e, st)
      | (None, st3) \<Rightarrow>
     (case Exec db_Exec o' ''SET autocommit=1;'' st3 of
        (Some e, st) \<Rightarrow> (Some e, st)
      | (None, st4) \<Rightarrow> (None, st4))))))"

definition Source ::
  "(string \<Rightarrow> error + string) \<Rightarrow> (string \<Rightarrow> error + 'db) \<Rightarrow> 'db sql_Exec \<Rightarrow>
   ('db \<Rightarrow> int \<Rightarrow> 'db) \<Rightarrow> ('db \<Rightarrow> 'db) \<Rightarrow>
   string \<Rightarrow> Reader \<Rightarrow> (sourceOption \<Rightarrow> sourceOption) list \<Rightarrow>
   error option \<times> (string \<times> error option) list \<times> 'db option" where
  "Source GetDBNameFromDNS sql_Open db_Exec db_SetConnMaxLifetime db_Close dns reader opts =
     (let o' = foldl (\<lambda>o' opt. opt o') \<lparr>dryRun = False, o_mergeInsert = 0, debug = False\<rparr> opts
      in case GetDBNameFromDNS dns of
           Inl e \<Rightarrow> (Some e, [], None)
         | Inr dbName \<Rightarrow>
             (case sql_Open dns of
                Inl e \<Rightarrow> (Some e, [], None)
              | Inr db \<Rightarrow>
                  (case Source_run db_Exec db_SetConnMaxLifetime o' dbName reader db of
                     (res, st) \<Rightarrow> (res, fst st, Some (db_Close (snd st))))))"

section \<open>The pool of database/sql and the sessions of the server\<close>

text \<open>
  \<open>Source\<close> never takes a connection of its own: every statement goes through
  \<open>sql.DB.Exec\<close>, which runs it on a connection of the pool. This section models
  that pool as one goroutine sees it, and a server whose transactions belong to a
  connection, so that the parameters of \<open>Source\<close> can be instantiated and the
  effect of a replay on the data can be read off.

  A connection knows when it was made (in nanoseconds of the pool's clock),
  whether its session has autocommit on, and the statements of its open
  transaction.
\<close>

record conn =
  createdAt :: int
  autocommit :: bool
  pending :: "string list"

text \<open>
  The pool and the server behind it: the clock, the time one call takes, the
  maximum lifetime of a connection (0 for none), the idle connection, the number
  of connections opened so far, the statements the server has committed, in
  order, and the statements the server rejects.
\<close>

record pool =
  clock :: int
  rtt :: int
  maxLifetime :: int
  freeConn :: "conn option"
  opened :: nat
  committed :: "string list"
  rejects :: "string list"

text \<open>
  \<open>DB.conn\<close>: the idle connection, unless it has expired (a lifetime is set and
  the connection was made more than that long ago); otherwise a new connection,
  whose session starts with autocommit on and no open transaction. An expired
  connection is closed, and the server rolls its open transaction back.
\<close>

definition pool_conn :: "pool \<Rightarrow> conn \<times> pool" where
  "pool_conn p =
     (case freeConn p of
        Some c \<Rightarrow>
          if 0 < maxLifetime p \<and> createdAt c + maxLifetime p < clock p
          then (\<lparr>createdAt = clock p, autocommit = True, pending = []\<rparr>,
                p\<lparr>freeConn := None, opened := Suc (opened p)\<rparr>)
          else (c, p\<lparr>freeConn := None\<rparr>)
      | None \<Rightarrow>
          (\<lparr>createdAt = clock p, autocommit = True, pending = []\<rparr>,
           p\<lparr>opened := Suc (opened p)\<rparr>))"

text \<open>
  What a statement does in a session, given what is committed so far:
  \<open>SET autocommit=0;\<close> and \<open>SET autocommit=1;\<close> switch the mode, and switching it
  on commits the open transaction; \<open>COMMIT;\<close> commits the open transaction;
  \<open>USE\<close> changes no data; any other statement is taken to be a data statement,
  committed at once when autocommit is on and added to the open transaction when
  it is off.
\<close>

definition session_exec :: "conn \<Rightarrow> string \<Rightarrow> string list \<Rightarrow> conn \<times> string list" where
  "session_exec c q done' =
     (if q = ''SET autocommit=0;'' then (c\<lparr>autocommit := False\<rparr>, done')
      else if q = ''SET autocommit=1;'' then
        (c\<lparr>autocommit := True, pending := []\<rparr>, done' @ pending c)
      else if q = ''COMMIT;'' then (c\<lparr>pending := []\<rparr>, done' @ pending c)
      else if HasPrefix q ''USE '' then (c, done')
      else if autocommit c then (c, done' @ [q])
      else (c\<lparr>pending := pending c @ [q]\<rparr>, done'))"

text \<open>
  \<open>DB.Exec\<close> on the pool: take a connection, run the statement in its session
  (a statement the server rejects changes nothing and gives an error), let the
  time of the call pass, and put the connection back.
\<close>

definition pool_Exec :: "pool \<Rightarrow> string \<Rightarrow> error option \<times> pool" where
  "pool_Exec p q =
     (case pool_conn p of
        (c, p1) \<Rightarrow>
          if q \<in> set (rejects p1)
          then (Some (Err (''rejected: '' @ q)),
                p1\<lparr>clock := clock p1 + rtt p1, freeConn := Some c\<rparr>)
          else
            (case session_exec c q (committed p1) of
               (c', done') \<Rightarrow>
                 (None, p1\<lparr>clock := clock p1 + rtt p1, freeConn := Some c', committed := done'\<rparr>)))"

text \<open>
  \<open>DB.SetConnMaxLifetime\<close> (a negative duration counts as 0) and \<open>DB.Close\<close>, which
  closes the idle connection; the server rolls its open transaction back.
\<close>

definition pool_SetConnMaxLifetime :: "pool \<Rightarrow> int \<Rightarrow> pool" where
  "pool_SetConnMaxLifetime p d = p\<lparr>maxLifetime := (if d < 0 then 0 else d)\<rparr>"

definition pool_Close :: "pool \<Rightarrow> pool" where
  "pool_Close p = p\<lparr>freeConn := None\<rparr>"

section \<open>Notions of the specification\<close>

text \<open>
  The specification speaks of a statement that contains the token \<open>VALUES\<close> and
  ends with \<open>;\<close>, and of its value tuple: the text after the token, without the
  final \<open>;\<close>. These are written here from the specification's words, without the
  index arithmetic of \<open>mergeInsert\<close>.
\<close>

fun after_token :: "string \<Rightarrow> string \<Rightarrow> string" where
  "after_token tok [] = []"
| "after_token tok (c # cs) =
     (if prefix tok (c # cs) then drop (length tok) (c # cs) else after_token tok cs)"

definition insert_stmt :: "string \<Rightarrow> bool" where
  "insert_stmt s = (sublist ''VALUES'' s \<and> s \<noteq> [] \<and> last s = CHR '';'')"

definition value_tuple :: "string \<Rightarrow> string" where
  "value_tuple s = butlast (after_token ''VALUES'' s)"

text \<open>
  Reading an SQL string literal, as the specification describes it: strip the
  outer quotes and collapse every doubled quote; a quote that is not doubled
  does not belong inside a literal.
\<close>

fun collapse_quotes :: "string \<Rightarrow> string option" where
  "collapse_quotes [] = Some []"
| "collapse_quotes (c # cs) =
     (if c = CHR 0x27 then
        (case cs of
           [] \<Rightarrow> None
         | d # ds \<Rightarrow> if d = CHR 0x27 then map_option ((#) CHR 0x27) (collapse_quotes ds) else None)
      else map_option ((#) c) (collapse_quotes cs))"

definition parse_sql_string :: "string \<Rightarrow> string option" where
  "parse_sql_string l =
     (if 2 \<le> length l \<and> hd l = CHR 0x27 \<and> last l = CHR 0x27
      then collapse_quotes (butlast (tl l)) else None)"

text \<open>
  A statement of the input stream: some bytes without \<open>;\<close>, then \<open>;\<close>. It counts
  as an insert when, trimmed, it begins with \<open>INSERT INTO\<close>.
\<close>

definition stream_stmt :: "string \<Rightarrow> bool" where
  "stream_stmt l = (l \<noteq> [] \<and> last l = CHR '';'' \<and> CHR '';'' \<notin> set (butlast l))"

definition begins_insert :: "string \<Rightarrow> bool" where
  "begins_insert l = HasPrefix (fst (trim l)) ''INSERT INTO''"

text \<open>
  Of the calls of \<open>dbWrapper.Exec\<close> that a replay made, with the error each
  returned: all succeeded, or all but the last succeeded, the last failed and its
  error is the result of the replay.
\<close>

definition only_last_failed :: "error option \<Rightarrow> (string \<times> error option) list \<Rightarrow> bool" where
  "only_last_failed res calls =
     (list_all (\<lambda>c. snd c = None) calls \<or>
      (\<exists>pre q e. calls = pre @ [(q, Some e)] \<and> list_all (\<lambda>c. snd c = None) pre \<and>
         res = Some e))"

text \<open>
  What the replayer does with a batch: execute the merge of its statements and,
  when neither the merge nor the execution fails, go on replaying the rest of the
  input.
\<close>

definition replay_batch ::
  "'db sql_Exec \<Rightarrow> sourceOption \<Rightarrow> string list \<Rightarrow> Reader \<Rightarrow> 'db session \<Rightarrow>
   error option \<times> 'db session" where
  "replay_batch db_Exec o' batch r st =
     (case mergeInsert batch of
        Inl e \<Rightarrow> (Some e, st)
      | Inr merged \<Rightarrow>
          (case Exec db_Exec o' merged st of
             (Some e, st') \<Rightarrow> (Some e, st')
           | (None, st') \<Rightarrow> Source_loop db_Exec o' r st'))"

section \<open>Properties of the string functions\<close>

lemma HasPrefix_prefix: "HasPrefix s p = prefix p s"
  unfolding HasPrefix_def prefix_def
  by (metis append_eq_conv_conj append_take_drop_id length_append le_add1)

lemma TrimSuffix_butlast:
  "s \<noteq> [] \<Longrightarrow> last s = c \<Longrightarrow> TrimSuffix s [c] = butlast s"
  by (cases s rule: rev_cases) (simp_all add: TrimSuffix_def HasSuffix_def)

lemma Index_from_neg: "(Index_from i s sub = - 1) = (\<not> sublist sub s)"
  by (induction s arbitrary: i) (auto simp: HasPrefix_prefix sublist_Cons_right)

lemma Index_from_ge: "sublist sub s \<Longrightarrow> int i \<le> Index_from i s sub"
proof (induction s arbitrary: i)
  case Nil
  then show ?case by simp
next
  case (Cons c cs)
  show ?case
  proof (cases "prefix sub (c # cs)")
    case True
    then show ?thesis by (simp add: HasPrefix_prefix)
  next
    case False
    with Cons.prems have "sublist sub cs" by (simp add: sublist_Cons_right)
    from Cons.IH [OF this, of "Suc i"] False show ?thesis
      by (simp add: HasPrefix_prefix)
  qed
qed

lemma Index_from_after:
  "sublist sub s \<Longrightarrow>
   TrimPrefix (drop (nat (Index_from i s sub - int i)) s) sub = after_token sub s"
proof (induction s arbitrary: i)
  case Nil
  then show ?case by (simp add: TrimPrefix_def HasPrefix_def)
next
  case (Cons c cs)
  show ?case
  proof (cases "prefix sub (c # cs)")
    case True
    then show ?thesis by (simp add: HasPrefix_prefix TrimPrefix_def)
  next
    case False
    with Cons.prems have sub: "sublist sub cs" by (simp add: sublist_Cons_right)
    from Index_from_ge [OF sub, of "Suc i"]
    have "nat (Index_from (Suc i) cs sub - int i) =
          Suc (nat (Index_from (Suc i) cs sub - int (Suc i)))"
      by simp
    with False Cons.IH [OF sub, of "Suc i"] show ?thesis by (simp add: HasPrefix_prefix)
  qed
qed

lemma Index_missing: "(Index s sub = - 1) = (\<not> sublist sub s)"
  by (simp add: Index_def Index_from_neg)

lemma Index_after:
  "sublist sub s \<Longrightarrow> TrimPrefix (drop (nat (Index s sub)) s) sub = after_token sub s"
  using Index_from_after [of sub s 0] by (simp add: Index_def)

lemma after_token_decomp: "sublist tok s \<Longrightarrow> \<exists>a. s = a @ tok @ after_token tok s"
proof (induction s)
  case Nil
  then show ?case by simp
next
  case (Cons c cs)
  show ?case
  proof (cases "prefix tok (c # cs)")
    case True
    then obtain r where r: "c # cs = tok @ r" by (auto simp: prefix_def)
    have "after_token tok (c # cs) = drop (length tok) (c # cs)" using True by simp
    also have "\<dots> = r" by (simp add: r)
    finally show ?thesis using r by (intro exI [of _ "[]"]) simp
  next
    case False
    with Cons.prems have "sublist tok cs" by (simp add: sublist_Cons_right)
    from Cons.IH [OF this] obtain a where "cs = a @ tok @ after_token tok cs" ..
    then have "c # cs = (c # a) @ tok @ after_token tok (c # cs)" using False by simp
    then show ?thesis by blast
  qed
qed

section \<open>The insert merger\<close>

lemma after_VALUES_last:
  assumes "insert_stmt s"
  shows "after_token ''VALUES'' s \<noteq> [] \<and> last (after_token ''VALUES'' s) = CHR '';''"
proof -
  from assms have sub: "sublist ''VALUES'' s" and l: "last s = CHR '';''"
    by (simp_all add: insert_stmt_def)
  from after_token_decomp [OF sub]
  obtain a where a: "s = a @ ''VALUES'' @ after_token ''VALUES'' s" ..
  show ?thesis
  proof (cases "after_token ''VALUES'' s = []")
    case True
    with a have "s = a @ ''VALUES''" by simp
    then have "last s = CHR ''S''"
      by (metis last_appendR last.simps list.distinct(1) last_ConsR)
    with l show ?thesis by simp
  next
    case False
    from a have "last s = last (a @ ''VALUES'' @ after_token ''VALUES'' s)" by simp
    also have "\<dots> = last (after_token ''VALUES'' s)" using False by simp
    finally show ?thesis using l False by simp
  qed
qed

lemma tuple_of_stmt:
  assumes "insert_stmt s"
  shows "TrimSuffix (TrimPrefix (drop (nat (Index s ''VALUES'')) s) ''VALUES'') '';'' =
         value_tuple s"
proof -
  from assms have sub: "sublist ''VALUES'' s" by (simp add: insert_stmt_def)
  from after_VALUES_last [OF assms] show ?thesis
    unfolding Index_after [OF sub] value_tuple_def by (simp add: TrimSuffix_butlast)
qed

lemma mergeInsert_loop_ok:
  "\<forall>s \<in> set xs. insert_stmt s \<Longrightarrow> i + length xs < n \<Longrightarrow>
   mergeInsert_loop n i xs b = Inr (b @ concat (map (\<lambda>s. '','' @ value_tuple s) xs))"
proof (induction xs arbitrary: i b)
  case Nil
  then show ?case by simp
next
  case (Cons x xs)
  from Cons.prems have x: "insert_stmt x" and xs: "\<forall>s \<in> set xs. insert_stmt s"
    and i: "int i < int n - 1" and i': "Suc i + length xs < n" by auto
  from x have nz: "Index x ''VALUES'' \<noteq> - 1" by (simp add: Index_missing insert_stmt_def)
  show ?case
    using Cons.IH [OF xs i'] nz i tuple_of_stmt [OF x] by (simp add: Let_def)
qed

lemma mergeInsert_loop_missing:
  "\<exists>s \<in> set xs. \<not> sublist ''VALUES'' s \<Longrightarrow>
   mergeInsert_loop n i xs b = Inl (Err ''invalid SQL: missing VALUES keyword'')"
proof (induction xs arbitrary: i b)
  case Nil
  then show ?case by simp
next
  case (Cons x xs)
  show ?case
  proof (cases "sublist ''VALUES'' x")
    case True
    with Cons.prems have "\<exists>s \<in> set xs. \<not> sublist ''VALUES'' s" by simp
    from Cons.IH [OF this] True show ?thesis by (simp add: Index_missing Let_def)
  next
    case False
    then show ?thesis by (simp add: Index_missing)
  qed
qed

text \<open>
  Claim C4. For every non-empty sequence of statements that each contain the
  token \<open>VALUES\<close> and end with \<open>;\<close>, \<open>mergeInsert\<close> succeeds, and its result is the
  first statement without its final \<open>;\<close>, followed for each later statement, in
  order, by a comma and that statement's value tuple (the text after its first
  \<open>VALUES\<close>, without the final \<open>;\<close>), followed by one \<open>;\<close>.
\<close>

theorem mergeInsert_joins_tuples:
  assumes "\<forall>s \<in> set (x # xs). insert_stmt s"
  shows "mergeInsert (x # xs) =
         Inr (butlast x @ concat (map (\<lambda>s. '','' @ value_tuple s) xs) @ '';'')"
proof -
  from assms have x: "x \<noteq> []" "last x = CHR '';''" and xs: "\<forall>s \<in> set xs. insert_stmt s"
    by (simp_all add: insert_stmt_def)
  from x have t: "TrimSuffix x '';'' = butlast x" by (simp add: TrimSuffix_butlast)
  show ?thesis
    using mergeInsert_loop_ok [OF xs, of 0 "length (x # xs)" "butlast x"] t
    by (simp add: mergeInsert_def)
qed

theorem mergeInsert_joins_tuples_witness:
  "insert_stmt ''INSERT INTO `t` VALUES (1,'x');'' \<and>
   insert_stmt ''INSERT INTO `t` VALUES (2,'y');'' \<and>
   mergeInsert [''INSERT INTO `t` VALUES (1,'x');'', ''INSERT INTO `t` VALUES (2,'y');''] =
     Inr ''INSERT INTO `t` VALUES (1,'x'), (2,'y');''"
proof -
  have h1: "insert_stmt ''INSERT INTO `t` VALUES (1,'x');''"
    and h2: "insert_stmt ''INSERT INTO `t` VALUES (2,'y');''"
    by (simp_all add: insert_stmt_def sublist_Cons_right)
  then have h: "\<forall>s \<in> set [''INSERT INTO `t` VALUES (1,'x');'',
                            ''INSERT INTO `t` VALUES (2,'y');'']. insert_stmt s"
    by simp
  show ?thesis
    using h1 h2 mergeInsert_joins_tuples [OF h] by (simp add: value_tuple_def)
qed

text \<open>
  Claim C8, as the code has it. \<open>mergeInsert\<close> of the empty sequence fails with
  the error "no input provided", and \<open>mergeInsert\<close> of a sequence in which a
  statement after the first lacks \<open>VALUES\<close> fails with the error "invalid SQL:
  missing VALUES keyword". The first statement is taken whole and is not
  searched for the token.
\<close>

theorem mergeInsert_errors:
  "mergeInsert [] = Inl (Err ''no input provided'') \<and>
   ((\<exists>s \<in> set xs. \<not> sublist ''VALUES'' s) \<longrightarrow>
      mergeInsert (x # xs) = Inl (Err ''invalid SQL: missing VALUES keyword''))"
  using mergeInsert_loop_missing [of xs "length (x # xs)" 0 "TrimSuffix x '';''"]
  by (auto simp: mergeInsert_def)

theorem mergeInsert_errors_witness:
  "(\<exists>s \<in> set [''INSERT INTO `t` values (2);'']. \<not> sublist ''VALUES'' s) \<and>
   mergeInsert [] = Inl (Err ''no input provided'') \<and>
   mergeInsert [''INSERT INTO `t` VALUES (1);'', ''INSERT INTO `t` values (2);''] =
     Inl (Err ''invalid SQL: missing VALUES keyword'')"
proof -
  have h: "\<exists>s \<in> set [''INSERT INTO `t` values (2);'']. \<not> sublist ''VALUES'' s"
    by (simp add: sublist_Cons_right)
  show ?thesis
    using h mergeInsert_errors [of "[''INSERT INTO `t` values (2);'']" "''INSERT INTO `t` VALUES (1);''"]
    by blast
qed

text \<open>
  Claim C8 as stated fails when the statement that lacks \<open>VALUES\<close> is the first
  one: the sequence below has such a statement and \<open>mergeInsert\<close> returns a
  merged text and no error.
\<close>

theorem mergeInsert_first_unchecked:
  "\<not> sublist ''VALUES'' ''INSERT INTO `t` SELECT 1;'' \<and>
   mergeInsert [''INSERT INTO `t` SELECT 1;'', ''INSERT INTO `t` VALUES (2);''] =
     Inr ''INSERT INTO `t` SELECT 1, (2);''"
  by (simp add: mergeInsert_def Index_def HasPrefix_def HasSuffix_def TrimPrefix_def
      TrimSuffix_def sublist_Cons_right)

section \<open>The literal encoder\<close>

lemma Replace_all_quote:
  "Replace_all s [CHR 0x27] [CHR 0x27, CHR 0x27] =
   concat (map (\<lambda>c. if c = CHR 0x27 then [CHR 0x27, CHR 0x27] else [c]) s)"
  by (induction s) (simp_all add: HasPrefix_def)

lemma collapse_doubled:
  "collapse_quotes (concat (map (\<lambda>c. if c = CHR 0x27 then [CHR 0x27, CHR 0x27] else [c]) s)) =
   Some s"
  by (induction s) simp_all

lemma parse_quoted:
  "parse_sql_string
     ([CHR 0x27] @ concat (map (\<lambda>c. if c = CHR 0x27 then [CHR 0x27, CHR 0x27] else [c]) s) @
      [CHR 0x27]) = Some s"
  by (simp add: parse_sql_string_def collapse_doubled butlast_append)

lemma column_char:
  assumes T: "Replace_all (Replace_all (DatabaseTypeName ct) ''UNSIGNED'' []) '' '' [] = T"
    and fam: "T \<in> set [''CHAR'', ''VARCHAR'', ''TINYTEXT'', ''TEXT'', ''MEDIUMTEXT'', ''LONGTEXT'']"
    and nn: "col \<noteq> VNil"
  shows "writeTableData_column lib withoutPrimaryID err ct col =
     Lit ([CHR 0x27] @ Replace_all (Sprintf lib CHR ''s'' col) [CHR 0x27] [CHR 0x27, CHR 0x27] @
          [CHR 0x27])"
proof -
  from fam have "T = ''CHAR'' \<or> T = ''VARCHAR'' \<or> T = ''TINYTEXT'' \<or> T = ''TEXT'' \<or>
    T = ''MEDIUMTEXT'' \<or> T = ''LONGTEXT''" by simp
  then show ?thesis
  proof (elim disjE)
    assume "T = ''CHAR''"
    with T nn show ?thesis by (simp add: writeTableData_column_def)
  next
    assume "T = ''VARCHAR''"
    with T nn show ?thesis by (simp add: writeTableData_column_def)
  next
    assume "T = ''TINYTEXT''"
    with T nn show ?thesis by (simp add: writeTableData_column_def)
  next
    assume "T = ''TEXT''"
    with T nn show ?thesis by (simp add: writeTableData_column_def)
  next
    assume "T = ''MEDIUMTEXT''"
    with T nn show ?thesis by (simp add: writeTableData_column_def)
  next
    assume "T = ''LONGTEXT''"
    with T nn show ?thesis by (simp add: writeTableData_column_def)
  qed
qed

text \<open>
  Claim C9. For a column of the character family (its type name made canonical
  by removing \<open>UNSIGNED\<close> and spaces) whose value is the byte text or string \<open>s\<close>,
  the literal is \<open>s\<close> between single quotes with every single quote of \<open>s\<close>
  doubled and nothing else changed, and reading that literal back (outer quotes
  stripped, doubled quotes collapsed) gives \<open>s\<close>.
\<close>

theorem char_literal_roundtrip:
  assumes T: "Replace_all (Replace_all (DatabaseTypeName ct) ''UNSIGNED'' []) '' '' [] = T"
    and fam: "T \<in> set [''CHAR'', ''VARCHAR'', ''TINYTEXT'', ''TEXT'', ''MEDIUMTEXT'', ''LONGTEXT'']"
    and col: "col = VBytes s \<or> col = VString s"
  shows "writeTableData_column lib withoutPrimaryID err ct col =
           Lit ([CHR 0x27] @
                concat (map (\<lambda>c. if c = CHR 0x27 then [CHR 0x27, CHR 0x27] else [c]) s) @
                [CHR 0x27]) \<and>
         parse_sql_string
           ([CHR 0x27] @
            concat (map (\<lambda>c. if c = CHR 0x27 then [CHR 0x27, CHR 0x27] else [c]) s) @
            [CHR 0x27]) = Some s"
proof -
  from col have nn: "col \<noteq> VNil" and s: "Sprintf lib CHR ''s'' col = s" by auto
  show ?thesis
    unfolding column_char [OF T fam nn] s Replace_all_quote using parse_quoted [of s] by simp
qed

theorem char_literal_roundtrip_witness:
  "Replace_all (Replace_all ''VARCHAR'' ''UNSIGNED'' []) '' '' [] = ''VARCHAR'' \<and>
   writeTableData_column \<lparr>Format = (\<lambda>t layout. []), verb_other = (\<lambda>c v. [])\<rparr> False None
     \<lparr>Name = ''name'', DatabaseTypeName = ''VARCHAR''\<rparr> (VBytes ''a's'') = Lit ([CHR 0x27] @ ''a'' @ [CHR 0x27, CHR 0x27] @ ''s'' @ [CHR 0x27]) \<and>
   parse_sql_string ([CHR 0x27] @ ''a'' @ [CHR 0x27, CHR 0x27] @ ''s'' @ [CHR 0x27]) =
     Some ''a's''"
proof -
  have T: "Replace_all (Replace_all (DatabaseTypeName \<lparr>Name = ''name'', DatabaseTypeName = ''VARCHAR''\<rparr>)
             ''UNSIGNED'' []) '' '' [] = ''VARCHAR''"
    by (simp add: HasPrefix_def)
  have fam: "''VARCHAR'' \<in> set [''CHAR'', ''VARCHAR'', ''TINYTEXT'', ''TEXT'', ''MEDIUMTEXT'',
      ''LONGTEXT'']" by simp
  have col: "VBytes ''a's'' = VBytes ''a's'' \<or> VBytes ''a's'' = VString ''a's''" by simp
  show ?thesis
    using T
      char_literal_roundtrip [OF T fam col, of "\<lparr>Format = (\<lambda>t layout. []), verb_other = (\<lambda>c v. [])\<rparr>" False None]
    by simp
qed

lemma column_bool:
  assumes T: "Replace_all (Replace_all (DatabaseTypeName ct) ''UNSIGNED'' []) '' '' [] = T"
    and fam: "T = ''BOOL'' \<or> T = ''BOOLEAN''"
    and nn: "col \<noteq> VNil"
  shows "writeTableData_column lib withoutPrimaryID err ct col =
     (case col of VBool b \<Rightarrow> if b then Lit ''true'' else Lit ''false'' | _ \<Rightarrow> Panic)"
  using fam
proof
  assume "T = ''BOOL''"
  with T nn show ?thesis by (simp add: writeTableData_column_def)
next
  assume "T = ''BOOLEAN''"
  with T nn show ?thesis by (simp add: writeTableData_column_def)
qed

text \<open>
  Claim C10. For a column whose canonical type is \<open>BOOL\<close> or \<open>BOOLEAN\<close>, a value
  that is not NULL and is not a native boolean makes the encoder panic (the type
  assertion \<open>col.(bool)\<close> is unchecked); it does not return an error.
\<close>

theorem bool_assertion_panics:
  assumes T: "Replace_all (Replace_all (DatabaseTypeName ct) ''UNSIGNED'' []) '' '' [] = T"
    and fam: "T = ''BOOL'' \<or> T = ''BOOLEAN''"
    and nn: "col \<noteq> VNil"
    and nb: "col \<noteq> VBool True" "col \<noteq> VBool False"
  shows "writeTableData_column lib withoutPrimaryID err ct col = Panic"
  unfolding column_bool [OF T fam nn] using nn nb by (cases col) auto

theorem bool_assertion_panics_witness:
  "Replace_all (Replace_all ''BOOL'' ''UNSIGNED'' []) '' '' [] = ''BOOL'' \<and>
   VBytes ''1'' \<noteq> VNil \<and> VBytes ''1'' \<noteq> VBool True \<and> VBytes ''1'' \<noteq> VBool False \<and>
   writeTableData_column \<lparr>Format = (\<lambda>t layout. []), verb_other = (\<lambda>c v. [])\<rparr> False None
     \<lparr>Name = ''flag'', DatabaseTypeName = ''BOOL''\<rparr> (VBytes ''1'') = Panic"
proof -
  have T: "Replace_all (Replace_all (DatabaseTypeName \<lparr>Name = ''flag'', DatabaseTypeName = ''BOOL''\<rparr>)
             ''UNSIGNED'' []) '' '' [] = ''BOOL''"
    by (simp add: HasPrefix_def)
  have fam: "''BOOL'' = ''BOOL'' \<or> ''BOOL'' = ''BOOLEAN''" by simp
  show ?thesis
    using T
      bool_assertion_panics [OF T fam, of "VBytes ''1''" "\<lparr>Format = (\<lambda>t layout. []), verb_other = (\<lambda>c v. [])\<rparr>" False None]
    by simp
qed

text \<open>
  Claim C1 does not hold of the code. With the zero-primary-key flag set, the
  \<open>INT\<close> column named \<open>id\<close> is rendered as \<open>0\<close> when the driver hands the value
  over as byte text, and as the value itself when it hands over a native
  integer: the test of the flag stands inside the \<open>[]byte\<close> branch only.
\<close>

theorem zero_primary_key_skips_native_integers:
  "writeTableData_column lib True None \<lparr>Name = ''id'', DatabaseTypeName = ''INT''\<rparr>
     (VBytes ''5'') = Lit ''0'' \<and>
   writeTableData_column lib True None \<lparr>Name = ''id'', DatabaseTypeName = ''INT''\<rparr>
     (VInt64 5) = Lit ''5''"
  by (simp add: writeTableData_column_def HasPrefix_def FormatInt_def)

section \<open>The table dump and its writer\<close>

text \<open>
  Claim C2 does not hold of the code. A table with one \<open>DATE\<close> column whose value
  arrives as byte text (what the driver hands over unless it is asked to parse
  times) makes \<open>writeTableData\<close> leave at line 426 with \<open>return err\<close>, and \<open>err\<close>
  is the \<open>nil\<close> of the \<open>Scan\<close> before: the function returns no error. Nothing is
  sent for the row, and \<open>done\<close> is never signalled.
\<close>

theorem type_conversion_failure_returns_nil:
  "writeTableData lib
     (\<lambda>q. Inr \<lparr>Columns = Inr [''d''],
                ColumnTypes = Inr [\<lparr>Name = ''d'', DatabaseTypeName = ''DATE''\<rparr>],
                scans = [Inr [VBytes ''2020-01-01'']]\<rparr>)
     ''t'' [] False =
   ([BufWrite (''-- ----------------------------'' @ [CHR 0x0A]),
     BufWrite (''-- Records of t'' @ [CHR 0x0A]),
     BufWrite (''-- ----------------------------'' @ [CHR 0x0A]),
     Go],
    Returned None)"
  by (simp add: writeTableData_def writeTableData_column_def HasPrefix_def TrimSpace_def)

text \<open>What \<open>writeTableData\<close> does for a table of one row.\<close>

lemma one_row_actions:
  "writeTableData lib
     (\<lambda>q. Inr \<lparr>Columns = Inr [''id''],
                ColumnTypes = Inr [\<lparr>Name = ''id'', DatabaseTypeName = ''INT''\<rparr>],
                scans = [Inr [VBytes ''5'']]\<rparr>)
     ''t'' [] False =
   ([BufWrite (''-- ----------------------------'' @ [CHR 0x0A]),
     BufWrite (''-- Records of t'' @ [CHR 0x0A]),
     BufWrite (''-- ----------------------------'' @ [CHR 0x0A]),
     Go,
     Send (''INSERT INTO `t` VALUES (5);'' @ [CHR 0x0A]),
     BufWrite [CHR 0x0A, CHR 0x0A],
     Done],
    Returned None)"
  by (simp add: writeTableData_def writeTableData_column_def HasPrefix_def TrimSpace_def)

text \<open>
  Claim C3 does not hold of the code. The producer sends the row into the buffer
  of \<open>writeCh\<close>, writes the two newlines and signals \<open>done\<close> before \<open>writeViaBuf\<close>
  reaches its \<open>select\<close>; both cases are ready and the \<open>select\<close> takes \<open>done\<close>. The
  goroutine flushes and returns, \<open>writeTableData\<close> has returned \<open>nil\<close>, and the
  row is still in the channel: it is neither in the buffer nor at the
  destination.
\<close>

theorem select_done_before_last_row:
  "run [Producer, Producer, Producer, Producer, Producer, Producer, Producer, SelectDone]
     (start
        (fst (writeTableData lib
               (\<lambda>q. Inr \<lparr>Columns = Inr [''id''],
                          ColumnTypes = Inr [\<lparr>Name = ''id'', DatabaseTypeName = ''INT''\<rparr>],
                          scans = [Inr [VBytes ''5'']]\<rparr>)
               ''t'' [] False))
        \<lparr>size_w = 1048576, buf = [], dest = [], dest_StringWriter = sw\<rparr>) =
   Some \<lparr>prog = [],
         writeCh = [''INSERT INTO `t` VALUES (5);'' @ [CHR 0x0A]],
         doneCh = 0,
         cons = Exited,
         writer = \<lparr>size_w = 1048576, buf = [],
                    dest = ''-- ----------------------------'' @ [CHR 0x0A] @
                           ''-- Records of t'' @ [CHR 0x0A] @
                           ''-- ----------------------------'' @ [CHR 0x0A] @
                           [CHR 0x0A, CHR 0x0A],
                    dest_StringWriter = sw\<rparr>\<rparr>"
  unfolding one_row_actions
  by (simp add: start_def WriteString_def Available_def Flush_def)

text \<open>When the \<open>select\<close> takes the row first, the row reaches the destination.\<close>

lemma select_data_first_writes_row:
  "run [Producer, Producer, Producer, Producer, Producer, SelectData, Producer, Producer, SelectDone]
     (start
        (fst (writeTableData lib
               (\<lambda>q. Inr \<lparr>Columns = Inr [''id''],
                          ColumnTypes = Inr [\<lparr>Name = ''id'', DatabaseTypeName = ''INT''\<rparr>],
                          scans = [Inr [VBytes ''5'']]\<rparr>)
               ''t'' [] False))
        \<lparr>size_w = 1048576, buf = [], dest = [], dest_StringWriter = sw\<rparr>) =
   Some \<lparr>prog = [],
         writeCh = [],
         doneCh = 0,
         cons = Exited,
         writer = \<lparr>size_w = 1048576, buf = [],
                    dest = ''-- ----------------------------'' @ [CHR 0x0A] @
                           ''-- Records of t'' @ [CHR 0x0A] @
                           ''-- ----------------------------'' @ [CHR 0x0A] @
                           ''INSERT INTO `t` VALUES (5);'' @ [CHR 0x0A] @
                           [CHR 0x0A, CHR 0x0A],
                    dest_StringWriter = sw\<rparr>\<rparr>"
  unfolding one_row_actions
  by (simp add: start_def WriteString_def Available_def Flush_def)

section \<open>Statement replay\<close>

declare Source_loop.simps [simp del]

lemma Exec_calls: "Exec E o' q st = (err, st') \<Longrightarrow> fst st' = fst st @ [(q, err)]"
  by (auto simp: Exec_def split: prod.splits if_splits)

text \<open>One turn of the main loop: it returns without a call, or a call fails, or a call
  succeeds and the loop goes on with a shorter input.\<close>

lemma Source_loop_turn:
  assumes "Source_loop E o' r st = (res, st')"
  shows "st' = st \<or>
         (\<exists>q e. res = Some e \<and> Exec E o' q st = (Some e, st')) \<or>
         (\<exists>q st1 r1. Exec E o' q st = (None, st1) \<and> length (fst r1) < length (fst r) \<and>
            Source_loop E o' r1 st1 = (res, st'))"
proof -
  obtain line err r1 where rs: "ReadString r CHR '';'' = ((line, err), r1)"
    by (metis surj_pair)
  show ?thesis
  proof (cases err)
    case (Some e)
    with assms rs show ?thesis by (subst (asm) Source_loop.simps) (auto split: if_splits)
  next
    case None
    note sh = ReadString_shorter [OF rs [unfolded None]]
    have tr: "trim line = (fst (trim line), None)" by (simp add: trim_def Let_def)
    show ?thesis
    proof (cases "1 < o_mergeInsert o' \<and> HasPrefix (fst (trim line)) ''INSERT INTO''")
      case False
      obtain e1 st1 where ex: "Exec E o' (fst (trim line)) st = (e1, st1)" by (metis surj_pair)
      from assms rs None False ex tr
      have "(case e1 of None \<Rightarrow> Source_loop E o' r1 st1 | Some e \<Rightarrow> (Some e, st1)) = (res, st')"
        by (subst (asm) Source_loop.simps) (auto split: option.splits prod.splits)
      then show ?thesis
      proof (cases e1)
        case None': None
        assume "(case e1 of None \<Rightarrow> Source_loop E o' r1 st1 | Some e \<Rightarrow> (Some e, st1)) = (res, st')"
        with None' have "Source_loop E o' r1 st1 = (res, st')" by simp
        with ex None' sh show ?thesis by blast
      next
        case (Some e)
        assume "(case e1 of None \<Rightarrow> Source_loop E o' r1 st1 | Some e \<Rightarrow> (Some e, st1)) = (res, st')"
        with Some have "res = Some e" "st' = st1" by simp_all
        with ex Some show ?thesis by blast
      qed
    next
      case True
      obtain pe ins r2 where pl: "Source_pull (nat (o_mergeInsert o' - 1)) r1 [fst (trim line)] = (pe, ins, r2)"
        by (metis surj_pair)
      from Source_pull_le [OF pl] sh have sh2: "length (fst r2) < length (fst r)" by simp
      from assms rs None True pl tr
      have body: "(case pe of Some e \<Rightarrow> (Some e, st)
            | None \<Rightarrow> (case mergeInsert ins of Inl e \<Rightarrow> (Some e, st)
                | Inr merged \<Rightarrow> (case Exec E o' merged st of (Some e, st') \<Rightarrow> (Some e, st')
                      | (None, st') \<Rightarrow> Source_loop E o' r2 st'))) = (res, st')"
        by (subst (asm) Source_loop.simps) (auto split: option.splits prod.splits)
      show ?thesis
      proof (cases pe)
        case (Some e)
        with body show ?thesis by simp
      next
        case None
        show ?thesis
        proof (cases "mergeInsert ins")
          case (Inl e)
          with body None show ?thesis by simp
        next
          case (Inr merged)
          obtain e1 st1 where ex: "Exec E o' merged st = (e1, st1)" by (metis surj_pair)
          show ?thesis
          proof (cases e1)
            case None': None
            with body None Inr ex have "Source_loop E o' r2 st1 = (res, st')" by simp
            with ex None' sh2 show ?thesis by blast
          next
            case (Some e)
            with body None Inr ex have "res = Some e" "st' = st1" by simp_all
            with ex Some show ?thesis by blast
          qed
        qed
      qed
    qed
  qed
qed

text \<open>Facts about \<open>only_last_failed\<close>.\<close>

lemma only_last_failed_Nil: "only_last_failed res []"
  by (simp add: only_last_failed_def)

lemma only_last_failed_ok:
  "list_all (\<lambda>c. snd c = None) calls \<Longrightarrow> only_last_failed res calls"
  by (simp add: only_last_failed_def)

lemma only_last_failed_fail:
  "list_all (\<lambda>c. snd c = None) pre \<Longrightarrow> only_last_failed (Some e) (pre @ [(q, Some e)])"
  unfolding only_last_failed_def by blast

lemma only_last_failed_append:
  assumes "list_all (\<lambda>c. snd c = None) pre" and "only_last_failed res calls"
  shows "only_last_failed res (pre @ calls)"
  using assms(2) unfolding only_last_failed_def
proof
  assume "list_all (\<lambda>c. snd c = None) calls"
  with assms(1) show "list_all (\<lambda>c. snd c = None) (pre @ calls) \<or>
    (\<exists>pre' q e. pre @ calls = pre' @ [(q, Some e)] \<and> list_all (\<lambda>c. snd c = None) pre' \<and> res = Some e)"
    by simp
next
  assume "\<exists>p q e. calls = p @ [(q, Some e)] \<and> list_all (\<lambda>c. snd c = None) p \<and> res = Some e"
  then obtain p q e where "calls = p @ [(q, Some e)]" "list_all (\<lambda>c. snd c = None) p" "res = Some e"
    by blast
  with assms(1) have "pre @ calls = (pre @ p) @ [(q, Some e)] \<and>
    list_all (\<lambda>c. snd c = None) (pre @ p) \<and> res = Some e" by simp
  then show "list_all (\<lambda>c. snd c = None) (pre @ calls) \<or>
    (\<exists>pre' q e. pre @ calls = pre' @ [(q, Some e)] \<and> list_all (\<lambda>c. snd c = None) pre' \<and> res = Some e)"
    by blast
qed

lemma only_last_failed_None:
  "only_last_failed None calls \<Longrightarrow> list_all (\<lambda>c. snd c = None) calls"
  by (auto simp: only_last_failed_def)

lemma only_last_failed_index:
  assumes "only_last_failed res calls" and "i < length calls" and "snd (calls ! i) = Some e"
  shows "res = Some e \<and> Suc i = length calls"
  using assms(1) unfolding only_last_failed_def
proof
  assume "list_all (\<lambda>c. snd c = None) calls"
  with assms(2,3) show ?thesis by (simp add: list_all_length)
next
  assume "\<exists>pre q e. calls = pre @ [(q, Some e)] \<and> list_all (\<lambda>c. snd c = None) pre \<and> res = Some e"
  then obtain pre q e' where c: "calls = pre @ [(q, Some e')]"
    and pre: "list_all (\<lambda>c. snd c = None) pre" and res: "res = Some e'" by blast
  have "\<not> i < length pre"
  proof
    assume "i < length pre"
    with c pre assms(3) show False by (simp add: nth_append list_all_length)
  qed
  with assms(2) c have i: "i = length pre" by simp
  with c assms(3) res show ?thesis by simp
qed

text \<open>The main loop only adds calls, and stops at the first call that fails.\<close>

lemma Source_loop_calls:
  "Source_loop E o' r st = (res, st') \<Longrightarrow>
   \<exists>new. fst st' = fst st @ new \<and> only_last_failed res new"
proof (induction "length (fst r)" arbitrary: r st rule: less_induct)
  case less
  from Source_loop_turn [OF less.prems] show ?case
  proof (elim disjE exE conjE)
    assume "st' = st"
    then show ?thesis by (simp add: only_last_failed_Nil)
  next
    fix q e assume res: "res = Some e" and ex: "Exec E o' q st = (Some e, st')"
    from only_last_failed_fail [of "[]" e q] res Exec_calls [OF ex] show ?thesis by auto
  next
    fix q st1 r1
    assume ex: "Exec E o' q st = (None, st1)" and sh: "length (fst r1) < length (fst r)"
      and lp: "Source_loop E o' r1 st1 = (res, st')"
    from less.hyps [OF sh lp] obtain new where new: "fst st' = fst st1 @ new"
      and P: "only_last_failed res new" by blast
    from new Exec_calls [OF ex] have 1: "fst st' = fst st @ ([(q, None)] @ new)" by simp
    from only_last_failed_append [OF _ P, of "[(q, None)]"]
    have "only_last_failed res ([(q, None)] @ new)" by simp
    with 1 show ?thesis by blast
  qed
qed

text \<open>
  The calls of a whole replay. When it returns \<open>nil\<close> they are \<open>USE\<close>, then
  \<open>SET autocommit=0;\<close>, then the calls of the main loop, then \<open>COMMIT;\<close> and
  \<open>SET autocommit=1;\<close>.
\<close>

lemma Source_run_shape:
  assumes S: "Source_run E L o' dbName reader db = (res, st)"
  shows "only_last_failed res (fst st) \<and>
    (res = None \<longrightarrow>
      (\<exists>db1 db2 body.
         Source_loop E o' reader
           ([(''USE '' @ dbName @ '';'', None), (''SET autocommit=0;'', None)], db1) =
           (None, ([(''USE '' @ dbName @ '';'', None), (''SET autocommit=0;'', None)] @ body, db2)) \<and>
         fst st = [(''USE '' @ dbName @ '';'', None), (''SET autocommit=0;'', None)] @ body @
                  [(''COMMIT;'', None), (''SET autocommit=1;'', None)]))"
proof -
  note S' = S [unfolded Source_run_def]
  obtain e0 st0 where x0: "Exec E o' (''USE '' @ dbName @ '';'') ([], db) = (e0, st0)"
    by (metis surj_pair)
  from Exec_calls [OF x0] have c0: "fst st0 = [(''USE '' @ dbName @ '';'', e0)]" by simp
  show ?thesis
  proof (cases e0)
    case (Some e)
    with S' x0 c0 only_last_failed_fail [of "[]" e] show ?thesis by auto
  next
    case n0: None
    obtain e1 st1 where x1: "Exec E o' ''SET autocommit=0;'' (fst st0, L (snd st0) 3600) = (e1, st1)"
      by (metis surj_pair)
    from Exec_calls [OF x1] c0 n0
    have c1: "fst st1 = [(''USE '' @ dbName @ '';'', None), (''SET autocommit=0;'', e1)]" by simp
    show ?thesis
    proof (cases e1)
      case (Some e)
      with S' x0 n0 x1 c1
        only_last_failed_fail [of "[(''USE '' @ dbName @ '';'', None)]" e "''SET autocommit=0;''"]
      show ?thesis by auto
    next
      case n1: None
      obtain e2 st2 where x2: "Source_loop E o' reader st1 = (e2, st2)" by (metis surj_pair)
      from Source_loop_calls [OF x2] c1 n1 obtain body where
        c2: "fst st2 = [(''USE '' @ dbName @ '';'', None), (''SET autocommit=0;'', None)] @ body"
        and b: "only_last_failed e2 body" by auto
      have pre: "list_all (\<lambda>c. snd c = None)
          [(''USE '' @ dbName @ '';'', None :: error option), (''SET autocommit=0;'', None)]"
        by simp
      show ?thesis
      proof (cases e2)
        case (Some e)
        with S' x0 n0 x1 n1 x2 c2 only_last_failed_append [OF pre b]
        show ?thesis by auto
      next
        case n2: None
        with b have bok: "list_all (\<lambda>c. snd c = None) body" by (simp add: only_last_failed_None)
        have st1: "st1 = ([(''USE '' @ dbName @ '';'', None), (''SET autocommit=0;'', None)], snd st1)"
          using c1 n1 by (cases st1) simp
        have st2: "st2 = ([(''USE '' @ dbName @ '';'', None), (''SET autocommit=0;'', None)] @ body, snd st2)"
          using c2 by (cases st2) simp
        from x2 n2 st1 st2 have loop: "Source_loop E o' reader
            ([(''USE '' @ dbName @ '';'', None), (''SET autocommit=0;'', None)], snd st1) =
            (None, ([(''USE '' @ dbName @ '';'', None), (''SET autocommit=0;'', None)] @ body, snd st2))"
          by metis
        obtain e3 st3 where x3: "Exec E o' ''COMMIT;'' st2 = (e3, st3)" by (metis surj_pair)
        from Exec_calls [OF x3] c2
        have c3: "fst st3 = ([(''USE '' @ dbName @ '';'', None), (''SET autocommit=0;'', None)] @ body) @
            [(''COMMIT;'', e3)]" by simp
        have ok2: "list_all (\<lambda>c. snd c = None)
            ([(''USE '' @ dbName @ '';'', None), (''SET autocommit=0;'', None)] @ body)"
          using bok by simp
        show ?thesis
        proof (cases e3)
          case (Some e)
          from S' x0 n0 x1 n1 x2 n2 x3 Some have "res = Some e" "st = st3"
            by simp_all
          with c3 Some only_last_failed_fail [OF ok2, of e "''COMMIT;''"] show ?thesis by simp
        next
          case n3: None
          obtain e4 st4 where x4: "Exec E o' ''SET autocommit=1;'' st3 = (e4, st4)"
            by (metis surj_pair)
          from Exec_calls [OF x4] c3 n3
          have c4: "fst st4 = ([(''USE '' @ dbName @ '';'', None), (''SET autocommit=0;'', None)] @ body @
              [(''COMMIT;'', None)]) @ [(''SET autocommit=1;'', e4)]" by simp
          have ok3: "list_all (\<lambda>c. snd c = None)
              ([(''USE '' @ dbName @ '';'', None), (''SET autocommit=0;'', None)] @ body @
               [(''COMMIT;'', None)])"
            using bok by simp
          show ?thesis
          proof (cases e4)
            case (Some e)
            from S' x0 n0 x1 n1 x2 n2 x3 n3 x4 Some have "res = Some e" "st = st4"
              by simp_all
            with c4 Some only_last_failed_fail [OF ok3, of e "''SET autocommit=1;''"]
            show ?thesis by simp
          next
            case n4: None
            from S' x0 n0 x1 n1 x2 n2 x3 n3 x4 n4 have r: "res = None" "st = st4"
              by simp_all
            have "only_last_failed res (fst st)"
              using r c4 n4 bok by (simp add: only_last_failed_def)
            moreover have "fst st = [(''USE '' @ dbName @ '';'', None), (''SET autocommit=0;'', None)] @
                body @ [(''COMMIT;'', None), (''SET autocommit=1;'', None)]"
              using r c4 n4 by simp
            ultimately show ?thesis using loop by blast
          qed
        qed
      qed
    qed
  qed
qed

lemma Source_shape:
  assumes S: "Source G O' E L C dns reader opts = (res, calls, fin)"
  shows "only_last_failed res calls \<and>
    (res = None \<longrightarrow>
      (\<exists>dbName db1 db2 body.
         G dns = Inr dbName \<and>
         Source_loop E (foldl (\<lambda>o' opt. opt o') \<lparr>dryRun = False, o_mergeInsert = 0, debug = False\<rparr> opts)
           reader ([(''USE '' @ dbName @ '';'', None), (''SET autocommit=0;'', None)], db1) =
           (None, ([(''USE '' @ dbName @ '';'', None), (''SET autocommit=0;'', None)] @ body, db2)) \<and>
         calls = [(''USE '' @ dbName @ '';'', None), (''SET autocommit=0;'', None)] @ body @
                 [(''COMMIT;'', None), (''SET autocommit=1;'', None)]))"
proof -
  define o' where "o' = foldl (\<lambda>o' opt. opt o') \<lparr>dryRun = False, o_mergeInsert = 0, debug = False\<rparr> opts"
  note S' = S [unfolded Source_def Let_def, folded o'_def]
  show ?thesis
  proof (cases "G dns")
    case (Inl e)
    with S' show ?thesis by (auto simp: only_last_failed_Nil)
  next
    case dbName: (Inr dbName)
    show ?thesis
    proof (cases "O' dns")
      case (Inl e)
      with S' dbName show ?thesis by (auto simp: only_last_failed_Nil)
    next
      case db: (Inr db)
      obtain r st where run: "Source_run E L o' dbName reader db = (r, st)" by (metis surj_pair)
      with S' dbName db have rc: "res = r" "calls = fst st" by simp_all
      from Source_run_shape [OF run] rc dbName show ?thesis unfolding o'_def by blast
    qed
  qed
qed

text \<open>
  When a replay completes normally (\<open>Source\<close> returns \<open>nil\<close>), the calls of
  \<open>dbWrapper.Exec\<close> it made are, in this order: \<open>USE\<close> of the database,
  \<open>SET autocommit=0;\<close>, the calls the main loop made for the statements of the
  stream, \<open>COMMIT;\<close>, and \<open>SET autocommit=1;\<close>. This orders the calls; it does not
  say that they reach one session of the server.
\<close>

lemma Source_calls_in_order:
  assumes "Source G O' E L C dns reader opts = (None, calls, fin)"
  shows "\<exists>dbName db1 db2 body.
           G dns = Inr dbName \<and>
           Source_loop E
             (foldl (\<lambda>o' opt. opt o') \<lparr>dryRun = False, o_mergeInsert = 0, debug = False\<rparr> opts)
             reader ([(''USE '' @ dbName @ '';'', None), (''SET autocommit=0;'', None)], db1) =
             (None, ([(''USE '' @ dbName @ '';'', None), (''SET autocommit=0;'', None)] @ body, db2)) \<and>
           calls = [(''USE '' @ dbName @ '';'', None), (''SET autocommit=0;'', None)] @ body @
                   [(''COMMIT;'', None), (''SET autocommit=1;'', None)]"
  using Source_shape [OF assms] by simp

text \<open>
  Claim C5 does not hold of the code. \<open>Source\<close> sets the maximum lifetime of a
  connection to 3600 nanoseconds (line 609) and sends every statement through
  the pool (line 565). On a server that takes a millisecond for a call, each
  call finds the idle connection expired and runs on a new one, whose session
  has autocommit on: \<open>SET autocommit=0;\<close> reaches a session no statement of the
  stream uses. In the replay below the second statement is rejected and \<open>Source\<close>
  returns its error, four connections have been opened for the four calls, and
  the first statement of the stream is committed all the same: no transaction
  spans the stream.
\<close>

theorem Source_commits_each_statement_alone:
  "Source (\<lambda>dns. Inr ''db'')
     (\<lambda>dns. Inr \<lparr>clock = 0, rtt = 1000000, maxLifetime = 0, freeConn = None, opened = 0,
                  committed = [], rejects = [''BAD;'']\<rparr>)
     pool_Exec pool_SetConnMaxLifetime pool_Close ''dsn''
     (''INSERT INTO `t` VALUES (1);BAD;'', EOF) [] =
   (Some (Err ''rejected: BAD;''),
    [(''USE db;'', None), (''SET autocommit=0;'', None),
     (''INSERT INTO `t` VALUES (1);'', None), (''BAD;'', Some (Err ''rejected: BAD;''))],
    Some \<lparr>clock = 4000000, rtt = 1000000, maxLifetime = 3600, freeConn = None, opened = 4,
          committed = [''INSERT INTO `t` VALUES (1);''], rejects = [''BAD;'']\<rparr>)"
  by code_simp

text \<open>
  The same replay when all four calls fall within the lifetime of the first
  connection: they share its session, and the statement of the failed replay is
  not committed.
\<close>

lemma replay_within_lifetime:
  "Source (\<lambda>dns. Inr ''db'')
     (\<lambda>dns. Inr \<lparr>clock = 0, rtt = 1000, maxLifetime = 0, freeConn = None, opened = 0,
                  committed = [], rejects = [''BAD;'']\<rparr>)
     pool_Exec pool_SetConnMaxLifetime pool_Close ''dsn''
     (''INSERT INTO `t` VALUES (1);BAD;'', EOF) [] =
   (Some (Err ''rejected: BAD;''),
    [(''USE db;'', None), (''SET autocommit=0;'', None),
     (''INSERT INTO `t` VALUES (1);'', None), (''BAD;'', Some (Err ''rejected: BAD;''))],
    Some \<lparr>clock = 4000, rtt = 1000, maxLifetime = 3600, freeConn = None, opened = 1,
          committed = [], rejects = [''BAD;'']\<rparr>)"
  by code_simp

text \<open>
  A replay of two statements that completes normally, on the server that takes a
  millisecond for a call: six calls, six connections, and every statement
  committed by itself before \<open>COMMIT;\<close> is issued.
\<close>

lemma replay_on_six_connections:
  "Source (\<lambda>dns. Inr ''db'')
     (\<lambda>dns. Inr \<lparr>clock = 0, rtt = 1000000, maxLifetime = 0, freeConn = None, opened = 0,
                  committed = [], rejects = []\<rparr>)
     pool_Exec pool_SetConnMaxLifetime pool_Close ''dsn''
     (''INSERT INTO `t` VALUES (1);'' @ [CHR 0x0A] @ ''INSERT INTO `t` VALUES (2);'' @ [CHR 0x0A], EOF)
     [] =
   (None,
    [(''USE db;'', None), (''SET autocommit=0;'', None),
     (''INSERT INTO `t` VALUES (1);'', None), (''INSERT INTO `t` VALUES (2);'', None),
     (''COMMIT;'', None), (''SET autocommit=1;'', None)],
    Some \<lparr>clock = 6000000, rtt = 1000000, maxLifetime = 3600, freeConn = None, opened = 6,
          committed = [''INSERT INTO `t` VALUES (1);'', ''INSERT INTO `t` VALUES (2);''],
          rejects = []\<rparr>)"
  by code_simp

text \<open>
  Claim C6. When a call of \<open>Exec\<close> fails during a replay, \<open>Source\<close> returns the
  error of that call, and the call is the last one it makes: nothing is issued
  after the statement that failed, neither \<open>COMMIT;\<close> nor \<open>ROLLBACK;\<close>.
\<close>

theorem Source_failed_call_is_last:
  assumes "Source G O' E L C dns reader opts = (res, calls, fin)"
    and "i < length calls" and "snd (calls ! i) = Some e"
  shows "res = Some e \<and> Suc i = length calls"
  using Source_shape [OF assms(1)] only_last_failed_index [OF _ assms(2,3)] by blast

text \<open>A replay whose second statement the database rejects.\<close>

lemma replay_failing_statement:
  "Source (\<lambda>dns. Inr ''db'') (\<lambda>dns. Inr ())
     (\<lambda>db q. if q = ''BAD;'' then (Some (Err ''syntax error''), db) else (None, db))
     (\<lambda>db d. db) (\<lambda>db. db) ''dsn''
     (''SELECT 1;BAD;SELECT 2;'', EOF) [] =
   (Some (Err ''syntax error''),
    [(''USE db;'', None), (''SET autocommit=0;'', None), (''SELECT 1;'', None),
     (''BAD;'', Some (Err ''syntax error''))],
    Some ())"
  by code_simp

theorem Source_failed_call_is_last_witness:
  "Source (\<lambda>dns. Inr ''db'') (\<lambda>dns. Inr ())
     (\<lambda>db q. if q = ''BAD;'' then (Some (Err ''syntax error''), db) else (None, db))
     (\<lambda>db d. db) (\<lambda>db. db) ''dsn''
     (''SELECT 1;BAD;SELECT 2;'', EOF) [] =
   (Some (Err ''syntax error''),
    [(''USE db;'', None), (''SET autocommit=0;'', None), (''SELECT 1;'', None),
     (''BAD;'', Some (Err ''syntax error''))],
    Some ()) \<and>
   3 < length [(''USE db;'', None), (''SET autocommit=0;'', None), (''SELECT 1;'', None),
     (''BAD;'', Some (Err ''syntax error''))] \<and>
   snd ([(''USE db;'', None), (''SET autocommit=0;'', None), (''SELECT 1;'', None),
     (''BAD;'', Some (Err ''syntax error''))] ! 3) = Some (Err ''syntax error'') \<and>
   Suc 3 = length [(''USE db;'', None), (''SET autocommit=0;'', None), (''SELECT 1;'', None),
     (''BAD;'', Some (Err ''syntax error''))]"
proof -
  have i: "3 < length [(''USE db;'', None), (''SET autocommit=0;'', None), (''SELECT 1;'', None),
     (''BAD;'', Some (Err ''syntax error''))]" by simp
  have f: "snd ([(''USE db;'', None), (''SET autocommit=0;'', None), (''SELECT 1;'', None),
     (''BAD;'', Some (Err ''syntax error''))] ! 3) = Some (Err ''syntax error'')" by simp
  from Source_failed_call_is_last [OF replay_failing_statement i f] replay_failing_statement i f
  show ?thesis by blast
qed

text \<open>\<open>ReadString\<close> on an input that starts with a statement, and on one without \<open>;\<close>.\<close>

lemma ReadString_stmt:
  assumes "stream_stmt l"
  shows "ReadString (l @ rest, e) CHR '';'' = ((l, None), (rest, e))"
proof -
  from assms have "l \<noteq> []" and "last l = CHR '';''" and a: "CHR '';'' \<notin> set (butlast l)"
    by (simp_all add: stream_stmt_def)
  from append_butlast_last_id [OF this(1)] this(2) have l: "l = butlast l @ [CHR '';'']"
    by simp
  define a where "a = butlast l"
  from l a have la: "l = a @ [CHR '';'']" and na: "CHR '';'' \<notin> set a" by (simp_all add: a_def)
  have tw: "takeWhile (\<lambda>c. c \<noteq> CHR '';'') (l @ rest) = a"
    using na by (auto simp: la takeWhile_tail)
  show ?thesis
    unfolding ReadString_def Let_def fst_conv snd_conv tw by (simp add: la)
qed

lemma ReadString_no_delim:
  assumes "CHR '';'' \<notin> set t"
  shows "ReadString (t, e) CHR '';'' = ((t, Some e), ([], e))"
proof -
  from assms have tw: "takeWhile (\<lambda>c. c \<noteq> CHR '';'') t = t"
    by (induction t) auto
  show ?thesis
    unfolding ReadString_def Let_def fst_conv snd_conv tw by simp
qed

text \<open>The inner loop adds at most \<open>k\<close> statements, each beginning with \<open>INSERT INTO\<close>.\<close>

lemma Source_pull_bound:
  "Source_pull k r acc = (res, acc', r') \<Longrightarrow>
   \<exists>new. acc' = acc @ new \<and> length new \<le> k \<and> (\<forall>s \<in> set new. HasPrefix s ''INSERT INTO'')"
proof (induction k arbitrary: r acc)
  case 0
  then show ?case by simp
next
  case (Suc k)
  obtain line err r1 where rs: "ReadString r CHR '';'' = ((line, err), r1)"
    by (metis surj_pair)
  show ?case
  proof (cases err)
    case (Some e0)
    with Suc.prems rs show ?thesis by (auto split: if_splits)
  next
    case None
    show ?thesis
    proof (cases "HasPrefix (fst (trim line)) ''INSERT INTO''")
      case True
      with Suc.prems rs None have "Source_pull k r1 (acc @ [fst (trim line)]) = (res, acc', r')"
        by (simp add: trim_def Let_def)
      from Suc.IH [OF this] obtain new where "acc' = (acc @ [fst (trim line)]) @ new"
        "length new \<le> k" "\<forall>s \<in> set new. HasPrefix s ''INSERT INTO''" by blast
      with True have "acc' = acc @ (fst (trim line) # new) \<and> length (fst (trim line) # new) \<le> Suc k \<and>
        (\<forall>s \<in> set (fst (trim line) # new). HasPrefix s ''INSERT INTO'')" by simp
      then show ?thesis by blast
    next
      case False
      with Suc.prems rs None show ?thesis by (simp add: trim_def Let_def)
    qed
  qed
qed

text \<open>The inner loop takes the inserts at the head of the input one by one.\<close>

lemma Source_pull_inserts:
  "\<forall>l \<in> set ls. stream_stmt l \<and> begins_insert l \<Longrightarrow> length ls \<le> k \<Longrightarrow>
   Source_pull k (concat ls @ rest, e) acc =
   Source_pull (k - length ls) (rest, e) (acc @ map (\<lambda>l. fst (trim l)) ls)"
proof (induction ls arbitrary: k acc)
  case Nil
  then show ?case by simp
next
  case (Cons l ls)
  from Cons.prems obtain j where k: "k = Suc j" and j: "length ls \<le> j" by (cases k) auto
  from Cons.prems have l: "stream_stmt l" "begins_insert l"
    and ls: "\<forall>l \<in> set ls. stream_stmt l \<and> begins_insert l" by auto
  from ReadString_stmt [OF l(1), of "concat ls @ rest" e] l(2)
  have "Source_pull (Suc j) (concat (l # ls) @ rest, e) acc =
        Source_pull j (concat ls @ rest, e) (acc @ [fst (trim l)])"
    by (simp add: begins_insert_def trim_def Let_def)
  with Cons.IH [OF ls j, of "acc @ [fst (trim l)]"] k show ?case by simp
qed

text \<open>
  The inner loop on an input that starts with the inserts \<open>ls\<close>, run \<open>k\<close> times at
  most: with \<open>k\<close> inserts it takes them all and leaves the rest unread; with fewer
  and a next statement \<open>x\<close> that is no insert it stops there, \<open>x\<close> read and not
  taken; with fewer and no further \<open>;\<close> it stops at the end of the input.
\<close>

lemma Source_pull_cases:
  assumes ls: "\<forall>l \<in> set ls. stream_stmt l \<and> begins_insert l"
  shows "length ls = k \<Longrightarrow>
           Source_pull k (concat ls @ rest, e) acc =
           (None, acc @ map (\<lambda>l. fst (trim l)) ls, (rest, e))"
    and "length ls < k \<Longrightarrow> stream_stmt x \<Longrightarrow> \<not> begins_insert x \<Longrightarrow>
           Source_pull k (concat ls @ x @ rest, e) acc =
           (None, acc @ map (\<lambda>l. fst (trim l)) ls, (rest, e))"
    and "length ls < k \<Longrightarrow> CHR '';'' \<notin> set t \<Longrightarrow>
           Source_pull k (concat ls @ t, EOF) acc =
           (None, acc @ map (\<lambda>l. fst (trim l)) ls, ([], EOF))"
proof -
  assume "length ls = k"
  with Source_pull_inserts [OF ls, of k rest e acc]
  show "Source_pull k (concat ls @ rest, e) acc =
        (None, acc @ map (\<lambda>l. fst (trim l)) ls, (rest, e))"
    by simp
next
  assume a: "length ls < k" "stream_stmt x" "\<not> begins_insert x"
  then obtain j where j: "k - length ls = Suc j" and le: "length ls \<le> k"
    by (cases "k - length ls") auto
  from a ReadString_stmt [of x rest e]
  have "Source_pull (Suc j) (x @ rest, e) (acc @ map (\<lambda>l. fst (trim l)) ls) =
        (None, acc @ map (\<lambda>l. fst (trim l)) ls, (rest, e))"
    by (simp add: begins_insert_def trim_def Let_def)
  with Source_pull_inserts [OF ls le, of "x @ rest" e acc] j
  show "Source_pull k (concat ls @ x @ rest, e) acc =
        (None, acc @ map (\<lambda>l. fst (trim l)) ls, (rest, e))"
    by simp
next
  assume a: "length ls < k" "CHR '';'' \<notin> set t"
  then obtain j where j: "k - length ls = Suc j" and le: "length ls \<le> k"
    by (cases "k - length ls") auto
  from a ReadString_no_delim [of t EOF]
  have "Source_pull (Suc j) (t, EOF) (acc @ map (\<lambda>l. fst (trim l)) ls) =
        (None, acc @ map (\<lambda>l. fst (trim l)) ls, ([], EOF))"
    by simp
  with Source_pull_inserts [OF ls le, of t EOF acc] j
  show "Source_pull k (concat ls @ t, EOF) acc =
        (None, acc @ map (\<lambda>l. fst (trim l)) ls, ([], EOF))"
    by simp
qed

text \<open>
  A turn of the main loop that starts a batch: with batch size above 1 and an
  input that starts with an insert, the loop runs the inner loop on what follows
  and then replays the batch collected.
\<close>

lemma Source_loop_starts_batch:
  assumes N: "1 < o_mergeInsert o'"
    and first: "stream_stmt first" "begins_insert first"
    and pull: "Source_pull (nat (o_mergeInsert o' - 1)) (R, e) [fst (trim first)] =
               (None, batch, r2)"
  shows "Source_loop E o' (first @ R, e) st = replay_batch E o' batch r2 st"
proof -
  define d where "d = fst (trim first)"
  have tr: "trim first = (d, None)" by (simp add: d_def trim_def Let_def)
  from first(2) have hp: "HasPrefix d ''INSERT INTO''" by (simp add: begins_insert_def d_def)
  note rs = ReadString_stmt [OF first(1), of R e]
  show ?thesis
    by (subst Source_loop.simps)
       (simp add: rs tr hp N pull [folded d_def] replay_batch_def)
qed

text \<open>
  Claim C7. Let the batch size \<open>o.mergeInsert\<close> be \<open>N > 1\<close> and let the input
  start with a statement that begins with \<open>INSERT INTO\<close>, followed by the
  inserts \<open>ls\<close>. When \<open>ls\<close> has \<open>N - 1\<close> statements, the replayer batches the first
  statement with all of them, takes no more whatever follows, and goes on with
  the rest of the input. When \<open>ls\<close> has fewer and the next statement \<open>x\<close> does not
  begin with \<open>INSERT INTO\<close>, the batch is the first statement and \<open>ls\<close>, and the
  replayer goes on after \<open>x\<close>: \<open>x\<close> has been read, is not in the batch, and what
  is replayed next is what follows it. When \<open>ls\<close> has fewer and the input ends,
  the batch is the first statement and \<open>ls\<close>.
\<close>

theorem Source_loop_batches_inserts:
  assumes N: "1 < o_mergeInsert o'"
    and first: "stream_stmt first" "begins_insert first"
    and ls: "\<forall>l \<in> set ls. stream_stmt l \<and> begins_insert l"
  shows "(int (length ls) = o_mergeInsert o' - 1 \<longrightarrow>
            Source_loop E o' (first @ concat ls @ rest, e) st =
            replay_batch E o' (map (\<lambda>l. fst (trim l)) (first # ls)) (rest, e) st) \<and>
         (int (length ls) < o_mergeInsert o' - 1 \<and> stream_stmt x \<and> \<not> begins_insert x \<longrightarrow>
            Source_loop E o' (first @ concat ls @ x @ rest, e) st =
            replay_batch E o' (map (\<lambda>l. fst (trim l)) (first # ls)) (rest, e) st) \<and>
         (int (length ls) < o_mergeInsert o' - 1 \<and> CHR '';'' \<notin> set t \<longrightarrow>
            Source_loop E o' (first @ concat ls @ t, EOF) st =
            replay_batch E o' (map (\<lambda>l. fst (trim l)) (first # ls)) ([], EOF) st)"
proof (intro conjI impI)
  assume "int (length ls) = o_mergeInsert o' - 1"
  then have k: "length ls = nat (o_mergeInsert o' - 1)" by simp
  from Source_pull_cases(1) [OF ls k, of rest e "[fst (trim first)]"]
  show "Source_loop E o' (first @ concat ls @ rest, e) st =
        replay_batch E o' (map (\<lambda>l. fst (trim l)) (first # ls)) (rest, e) st"
    using Source_loop_starts_batch [OF N first, of "concat ls @ rest" e _ "(rest, e)" E st]
    by simp
next
  assume a: "int (length ls) < o_mergeInsert o' - 1 \<and> stream_stmt x \<and> \<not> begins_insert x"
  then have k: "length ls < nat (o_mergeInsert o' - 1)" by linarith
  from a Source_pull_cases(2) [OF ls k, of x rest e "[fst (trim first)]"]
  show "Source_loop E o' (first @ concat ls @ x @ rest, e) st =
        replay_batch E o' (map (\<lambda>l. fst (trim l)) (first # ls)) (rest, e) st"
    using Source_loop_starts_batch [OF N first, of "concat ls @ x @ rest" e _ "(rest, e)" E st]
    by simp
next
  assume a: "int (length ls) < o_mergeInsert o' - 1 \<and> CHR '';'' \<notin> set t"
  then have k: "length ls < nat (o_mergeInsert o' - 1)" by linarith
  from a Source_pull_cases(3) [OF ls k, of t "[fst (trim first)]"]
  show "Source_loop E o' (first @ concat ls @ t, EOF) st =
        replay_batch E o' (map (\<lambda>l. fst (trim l)) (first # ls)) ([], EOF) st"
    using Source_loop_starts_batch [OF N first, of "concat ls @ t" EOF _ "([], EOF)" E st]
    by simp
qed

text \<open>Statements of a stream; all but the first come after a newline.\<close>

lemma stmt_examples:
  "stream_stmt ''INSERT INTO `t` VALUES (1);''"
  "begins_insert ''INSERT INTO `t` VALUES (1);''"
  "stream_stmt ([CHR 0x0A] @ ''INSERT INTO `t` VALUES (2);'')"
  "begins_insert ([CHR 0x0A] @ ''INSERT INTO `t` VALUES (2);'')"
  "stream_stmt ([CHR 0x0A] @ ''INSERT INTO `t` VALUES (3);'')"
  "begins_insert ([CHR 0x0A] @ ''INSERT INTO `t` VALUES (3);'')"
  "stream_stmt ([CHR 0x0A] @ ''DROP TABLE `x`;'')"
  "\<not> begins_insert ([CHR 0x0A] @ ''DROP TABLE `x`;'')"
  "fst (trim ''INSERT INTO `t` VALUES (1);'') = ''INSERT INTO `t` VALUES (1);''"
  "fst (trim ([CHR 0x0A] @ ''INSERT INTO `t` VALUES (2);'')) = ''INSERT INTO `t` VALUES (2);''"
  "fst (trim ([CHR 0x0A] @ ''INSERT INTO `t` VALUES (3);'')) = ''INSERT INTO `t` VALUES (3);''"
  by (simp_all add: stream_stmt_def begins_insert_def trim_def TrimLeft_def TrimSpace_def
      rune_width_def space_runes_def HasPrefix_def)

text \<open>Replaying a batch of three and a batch of two, with what follows them.\<close>

lemma replay_batch_examples:
  "replay_batch (\<lambda>db q. (None, db)) \<lparr>dryRun = False, o_mergeInsert = 3, debug = False\<rparr>
     [''INSERT INTO `t` VALUES (1);'', ''INSERT INTO `t` VALUES (2);'', ''INSERT INTO `t` VALUES (3);''] (([CHR 0x0A] @ ''INSERT INTO `t` VALUES (4);''), EOF) ([], ()) =
   (None, ([(''INSERT INTO `t` VALUES (1), (2), (3);'', None), (''INSERT INTO `t` VALUES (4);'', None)], ()))"
  "replay_batch (\<lambda>db q. (None, db)) \<lparr>dryRun = False, o_mergeInsert = 3, debug = False\<rparr>
     [''INSERT INTO `t` VALUES (1);'', ''INSERT INTO `t` VALUES (2);''] (([CHR 0x0A] @ ''INSERT INTO `t` VALUES (4);''), EOF) ([], ()) =
   (None, ([(''INSERT INTO `t` VALUES (1), (2);'', None), (''INSERT INTO `t` VALUES (4);'', None)], ()))"
  "replay_batch (\<lambda>db q. (None, db)) \<lparr>dryRun = False, o_mergeInsert = 3, debug = False\<rparr>
     [''INSERT INTO `t` VALUES (1);'', ''INSERT INTO `t` VALUES (2);''] ([], EOF) ([], ()) =
   (None, ([(''INSERT INTO `t` VALUES (1), (2);'', None)], ()))"
  by code_simp+

theorem Source_loop_batches_inserts_witness:
  "1 < o_mergeInsert \<lparr>dryRun = False, o_mergeInsert = 3, debug = False\<rparr> \<and>
   stream_stmt ''INSERT INTO `t` VALUES (1);'' \<and> begins_insert ''INSERT INTO `t` VALUES (1);'' \<and>
   stream_stmt ([CHR 0x0A] @ ''INSERT INTO `t` VALUES (2);'') \<and> begins_insert ([CHR 0x0A] @ ''INSERT INTO `t` VALUES (2);'') \<and>
   stream_stmt ([CHR 0x0A] @ ''INSERT INTO `t` VALUES (3);'') \<and> begins_insert ([CHR 0x0A] @ ''INSERT INTO `t` VALUES (3);'') \<and>
   stream_stmt ([CHR 0x0A] @ ''DROP TABLE `x`;'') \<and> \<not> begins_insert ([CHR 0x0A] @ ''DROP TABLE `x`;'') \<and>
   CHR '';'' \<notin> set [CHR 0x0A] \<and>
   Source_loop (\<lambda>db q. (None, db))
     \<lparr>dryRun = False, o_mergeInsert = 3, debug = False\<rparr>
     (''INSERT INTO `t` VALUES (1);'' @ ([CHR 0x0A] @ ''INSERT INTO `t` VALUES (2);'') @ ([CHR 0x0A] @ ''INSERT INTO `t` VALUES (3);'') @ ([CHR 0x0A] @ ''INSERT INTO `t` VALUES (4);''), EOF)
     ([], ()) =
   (None, ([(''INSERT INTO `t` VALUES (1), (2), (3);'', None), (''INSERT INTO `t` VALUES (4);'', None)], ())) \<and>
   Source_loop (\<lambda>db q. (None, db))
     \<lparr>dryRun = False, o_mergeInsert = 3, debug = False\<rparr>
     (''INSERT INTO `t` VALUES (1);'' @ ([CHR 0x0A] @ ''INSERT INTO `t` VALUES (2);'') @ ([CHR 0x0A] @ ''DROP TABLE `x`;'') @ ([CHR 0x0A] @ ''INSERT INTO `t` VALUES (4);''), EOF)
     ([], ()) =
   (None, ([(''INSERT INTO `t` VALUES (1), (2);'', None), (''INSERT INTO `t` VALUES (4);'', None)], ())) \<and>
   Source_loop (\<lambda>db q. (None, db))
     \<lparr>dryRun = False, o_mergeInsert = 3, debug = False\<rparr>
     (''INSERT INTO `t` VALUES (1);'' @ ([CHR 0x0A] @ ''INSERT INTO `t` VALUES (2);'') @ [CHR 0x0A], EOF)
     ([], ()) =
   (None, ([(''INSERT INTO `t` VALUES (1), (2);'', None)], ()))"
proof -
  have N: "1 < o_mergeInsert \<lparr>dryRun = False, o_mergeInsert = 3, debug = False\<rparr>" by simp
  have ls1: "\<forall>l \<in> set [([CHR 0x0A] @ ''INSERT INTO `t` VALUES (2);'')]. stream_stmt l \<and> begins_insert l"
    using stmt_examples by simp
  have ls2: "\<forall>l \<in> set [([CHR 0x0A] @ ''INSERT INTO `t` VALUES (2);''), ([CHR 0x0A] @ ''INSERT INTO `t` VALUES (3);'')]. stream_stmt l \<and> begins_insert l"
    using stmt_examples by simp
  have t: "CHR '';'' \<notin> set [CHR 0x0A]" by simp
  note full = Source_loop_batches_inserts [where rest = "([CHR 0x0A] @ ''INSERT INTO `t` VALUES (4);'')" and e = EOF
      and E = "(\<lambda>db q. (None, db))" and st = "([], ())", OF N stmt_examples(1,2) ls2]
  note stop = Source_loop_batches_inserts [where x = "([CHR 0x0A] @ ''DROP TABLE `x`;'')" and rest = "([CHR 0x0A] @ ''INSERT INTO `t` VALUES (4);'')" and e = EOF
      and E = "(\<lambda>db q. (None, db))" and st = "([], ())", OF N stmt_examples(1,2) ls1]
  note eof = Source_loop_batches_inserts [where t = "[CHR 0x0A]"
      and E = "(\<lambda>db q. (None, db))" and st = "([], ())", OF N stmt_examples(1,2) ls1]
  have a: "Source_loop (\<lambda>db q. (None, db))
     \<lparr>dryRun = False, o_mergeInsert = 3, debug = False\<rparr>
     (''INSERT INTO `t` VALUES (1);'' @ ([CHR 0x0A] @ ''INSERT INTO `t` VALUES (2);'') @ ([CHR 0x0A] @ ''INSERT INTO `t` VALUES (3);'') @ ([CHR 0x0A] @ ''INSERT INTO `t` VALUES (4);''), EOF)
     ([], ()) =
   (None, ([(''INSERT INTO `t` VALUES (1), (2), (3);'', None), (''INSERT INTO `t` VALUES (4);'', None)], ()))"
    using full stmt_examples(9,10,11) replay_batch_examples(1) by simp
  have b: "Source_loop (\<lambda>db q. (None, db))
     \<lparr>dryRun = False, o_mergeInsert = 3, debug = False\<rparr>
     (''INSERT INTO `t` VALUES (1);'' @ ([CHR 0x0A] @ ''INSERT INTO `t` VALUES (2);'') @ ([CHR 0x0A] @ ''DROP TABLE `x`;'') @ ([CHR 0x0A] @ ''INSERT INTO `t` VALUES (4);''), EOF)
     ([], ()) =
   (None, ([(''INSERT INTO `t` VALUES (1), (2);'', None), (''INSERT INTO `t` VALUES (4);'', None)], ()))"
    using stop stmt_examples(7,8,9,10) replay_batch_examples(2) by simp
  have c: "Source_loop (\<lambda>db q. (None, db))
     \<lparr>dryRun = False, o_mergeInsert = 3, debug = False\<rparr>
     (''INSERT INTO `t` VALUES (1);'' @ ([CHR 0x0A] @ ''INSERT INTO `t` VALUES (2);'') @ [CHR 0x0A], EOF)
     ([], ()) =
   (None, ([(''INSERT INTO `t` VALUES (1), (2);'', None)], ()))"
    using eof stmt_examples(9,10) replay_batch_examples(3) by simp
  from N stmt_examples(1-8) t a b c show ?thesis by blast
qed

text \<open>
  A whole replay with batch size 3: the \<open>DROP TABLE\<close> that ends the batch is read
  and never executed.
\<close>

lemma replay_drops_statement:
  "Source (\<lambda>dns. Inr ''db'') (\<lambda>dns. Inr ()) (\<lambda>db q. (None, db)) (\<lambda>db d. db) (\<lambda>db. db) ''dsn''
     (''INSERT INTO `t` VALUES (1);'' @ [CHR 0x0A] @ ''INSERT INTO `t` VALUES (2);'' @ [CHR 0x0A] @
      ''DROP TABLE `x`;'' @ [CHR 0x0A] @ ''INSERT INTO `t` VALUES (4);'', EOF)
     [WithMergeInsert 3] =
   (None, [(''USE db;'', None), (''SET autocommit=0;'', None),
           (''INSERT INTO `t` VALUES (1), (2);'', None),
           (''INSERT INTO `t` VALUES (4);'', None),
           (''COMMIT;'', None), (''SET autocommit=1;'', None)],
    Some ())"
  by code_simp


end
